theory Spec2Isabelle
  imports Main "HOL-Library.Char_ord" "HOL-Library.List_Lexorder"
begin

section \<open>Strings\<close>

text \<open>
  A Python string is the list of its code points, taken as integers. \<open>str\<close> turns a literal of the theory
  into such a list.
\<close>

type_synonym pystr = "int list"

definition str :: "string \<Rightarrow> pystr" where
  "str s = map of_char s"

text \<open>The code points on which \<open>str.isspace\<close> holds; \<open>str.strip()\<close> removes them from both
  ends.\<close>

definition is_space :: "int \<Rightarrow> bool" where
  "is_space n =
     ((9 \<le> n \<and> n \<le> 13) \<or> (28 \<le> n \<and> n \<le> 32) \<or> n = 133 \<or> n = 160 \<or> n = 5760
      \<or> (8192 \<le> n \<and> n \<le> 8202) \<or> n = 8232 \<or> n = 8233 \<or> n = 8239 \<or> n = 8287
      \<or> n = 12288)"

definition strip :: "pystr \<Rightarrow> pystr" where
  "strip s = rev (dropWhile is_space (rev (dropWhile is_space s)))"

text \<open>\<open>s.endswith(suf)\<close>, and \<open>s.endswith(tuple)\<close>.\<close>

definition endswith :: "pystr \<Rightarrow> pystr \<Rightarrow> bool" where
  "endswith s suf = (length suf \<le> length s \<and> drop (length s - length suf) s = suf)"

definition endswith_any :: "pystr \<Rightarrow> pystr list \<Rightarrow> bool" where
  "endswith_any s sufs = list_ex (endswith s) sufs"

text \<open>\<open>q in s\<close> on strings.\<close>

fun contains :: "pystr \<Rightarrow> pystr \<Rightarrow> bool" where
  "contains q [] = (q = [])"
| "contains q (c # cs) = (take (length q) (c # cs) = q \<or> contains q cs)"

definition IMAGE_EXTS :: "pystr list" where
  "IMAGE_EXTS = map str [''.png'', ''.jpg'', ''.jpeg'', ''.webp'', ''.gif'']"

definition VIDEO_EXTS :: "pystr list" where
  "VIDEO_EXTS = map str [''.mp4'', ''.mov'', ''.m4v'', ''.webm'']"

definition PLAYABLE_EXTS :: "pystr list" where
  "PLAYABLE_EXTS = IMAGE_EXTS @ VIDEO_EXTS"

section \<open>The player of MemePlayer_full.py\<close>

subsection \<open>The world outside the program\<close>

text \<open>
  What the program takes from the Python library, the operating system and VLC:
  \<open>str.lower\<close>; \<open>os.path.basename\<close>, the second component of \<open>os.path.splitext\<close> and
  \<open>os.path.join\<close>, which depend on the platform; whether \<open>import vlc\<close> and
  \<open>import winsound\<close> succeeded; whether \<open>vlc.Instance()\<close> succeeds; \<open>os.path.exists\<close>;
  the duration in milliseconds that VLC reports for a file (\<open>None\<close> when the \<open>try\<close> block
  of \<open>_start_countdown_for_video_loop\<close> raises); \<open>os.walk\<close>; and the random generator:
  \<open>rng e j n\<close> is what the \<open>j\<close>-th draw of the run gives for the bound \<open>n\<close>.
\<close>

record env =
  str_lower :: "pystr \<Rightarrow> pystr"
  basename :: "pystr \<Rightarrow> pystr"
  splitext_ext :: "pystr \<Rightarrow> pystr"
  path_join :: "pystr \<Rightarrow> pystr \<Rightarrow> pystr"
  VLC_AVAILABLE :: bool
  WINSOUND_AVAILABLE :: bool
  vlc_starts :: bool
  path_exists :: "pystr \<Rightarrow> bool"
  get_duration :: "pystr \<Rightarrow> int option"
  walk :: "pystr \<Rightarrow> (pystr \<times> pystr list) list"
  rng :: "nat \<Rightarrow> nat \<Rightarrow> nat"

text \<open>\<open>s.lower()\<close>. The lower-case form of the empty string is the empty string; for
  every other string it is what the library gives.\<close>

definition lower :: "env \<Rightarrow> pystr \<Rightarrow> pystr" where
  "lower e s = (if s = [] then [] else str_lower e s)"

text \<open>The list comprehension of \<open>_apply_search_filter\<close>, as a function of the text of the
  search box and the catalog.\<close>

definition search_filter :: "env \<Rightarrow> pystr \<Rightarrow> pystr list \<Rightarrow> pystr list" where
  "search_filter e query fs =
     (let q = lower e (strip query)
      in if q = [] then fs else filter (\<lambda>f. contains q (lower e (basename e f))) fs)"

text \<open>\<open>random.randrange(n)\<close> returns a member of \<open>range(n)\<close>: the value of the generator
  is taken into the range, so a value that is in the range already is returned as it is.\<close>

definition randrange :: "env \<Rightarrow> nat \<Rightarrow> nat \<Rightarrow> nat" where
  "randrange e j n = rng e j n mod n"

subsection \<open>The state\<close>

text \<open>The callbacks the program hands to \<open>self.after\<close>.\<close>

datatype callback = Tick_countdown | Play_next

text \<open>The calls to the widgets and the media backend that the claims read, in order.\<close>

datatype event =
    Warn_no_files
  | Warn_vlc_missing
  | Info_playlist_exists
  | Stop_video
  | Clear_panel
  | Show_image pystr
  | Play_sfx pystr
  | Show_placeholder pystr
  | Play_video pystr
  | Pause_video
  | Resume_video
  | Unknown_file_type pystr

text \<open>
  The attributes of the \<open>MemePlayer\<close> object, the variables of its widgets, and the part of
  Tk's event loop it uses: \<open>pending\<close> holds the callbacks scheduled with \<open>after\<close> and not
  yet run or cancelled, each with its identifier and delay in milliseconds; \<open>next_id\<close> is
  the next identifier Tk gives out. Tk's identifiers are non-empty strings, so the test
  \<open>if self._after_id\<close> is the test against \<open>None\<close>. \<open>draws\<close> counts the draws made from
  the random generator. \<open>playlists\<close> is the dictionary as the list of its items;
  \<open>playlists_file\<close> is the content of playlists.json (\<open>None\<close> when there is no file).
\<close>

record player =
  folder :: "pystr option"
  files :: "pystr list"
  filtered_files :: "pystr list"
  current_index :: "int option"
  is_running :: bool
  is_paused :: bool
  shuffle :: bool
  interval_seconds :: int
  loop_videos :: bool
  vlc_instance :: bool
  vlc_player :: bool
  sfx_files :: "pystr list"
  enable_image_sfx :: bool
  playlists :: "(pystr \<times> pystr list) list"
  current_playlist :: pystr
  search_var :: pystr
  after_id :: "nat option"
  countdown_seconds_left :: int
  progress_value :: int
  progress_maximum :: int
  timer_label :: "int option"
  playlists_file :: "(pystr \<times> pystr list) list option"
  pending :: "(nat \<times> int \<times> callback) list"
  next_id :: nat
  draws :: nat
  trace :: "event list"

definition emit :: "event \<Rightarrow> player \<Rightarrow> player" where
  "emit ev s = s\<lparr>trace := trace s @ [ev]\<rparr>"

subsection \<open>Tk's timers\<close>

definition after :: "int \<Rightarrow> callback \<Rightarrow> player \<Rightarrow> nat \<times> player" where
  "after ms cb s =
     (next_id s, s\<lparr>pending := pending s @ [(next_id s, ms, cb)], next_id := Suc (next_id s)\<rparr>)"

definition after_cancel :: "nat \<Rightarrow> player \<Rightarrow> player" where
  "after_cancel i s = s\<lparr>pending := filter (\<lambda>t. fst t \<noteq> i) (pending s)\<rparr>"

definition cancel_timers :: "player \<Rightarrow> player" where
  "cancel_timers s =
     (case after_id s of
        None \<Rightarrow> s
      | Some i \<Rightarrow>
          (after_cancel i s)\<lparr>after_id := None, countdown_seconds_left := 0,
                              progress_value := 0, timer_label := None\<rparr>)"

subsection \<open>The countdown\<close>

text \<open>
  \<open>_tick_countdown\<close> calls \<open>self.play_next\<close> when the countdown is over, and
  \<open>play_next\<close> reaches \<open>_tick_countdown\<close> again through \<open>_play_current\<close> and
  \<open>_start_countdown\<close>. The functions of this cycle take the bound method as the argument
  \<open>pn\<close>; \<open>play_next\<close> below closes the cycle. A result \<open>None\<close> is a call that does not
  return: the recursion has no end and Python raises RecursionError.
\<close>

definition tick_countdown :: "(player \<Rightarrow> player option) \<Rightarrow> player \<Rightarrow> player option" where
  "tick_countdown pn s =
     (if \<not> is_running s \<or> is_paused s then Some s
      else if countdown_seconds_left s \<le> 0
      then pn (s\<lparr>timer_label := Some 0, progress_value := progress_maximum s\<rparr>)
      else
        (let s1 = s\<lparr>timer_label := Some (countdown_seconds_left s),
                      progress_value := progress_value s + 1,
                      countdown_seconds_left := countdown_seconds_left s - 1\<rparr>;
             (i, s2) = after 1000 Tick_countdown s1
         in Some (s2\<lparr>after_id := Some i\<rparr>)))"

definition start_countdown ::
  "(player \<Rightarrow> player option) \<Rightarrow> int \<Rightarrow> player \<Rightarrow> player option" where
  "start_countdown pn seconds s =
     tick_countdown pn
       ((cancel_timers s)\<lparr>countdown_seconds_left := seconds, progress_maximum := seconds,
                           progress_value := 0\<rparr>)"

definition video_length_s :: "env \<Rightarrow> pystr \<Rightarrow> int option" where
  "video_length_s e path =
     (case get_duration e path of
        None \<Rightarrow> None
      | Some length_ms \<Rightarrow>
          if length_ms \<noteq> 0 \<and> length_ms > 0 then Some (length_ms div 1000) else None)"

definition start_countdown_for_video_loop ::
  "(player \<Rightarrow> player option) \<Rightarrow> env \<Rightarrow> pystr \<Rightarrow> player \<Rightarrow> player option" where
  "start_countdown_for_video_loop pn e path s =
     (let s1 = cancel_timers s;
          length_s =
            (case video_length_s e path of
               None \<Rightarrow> interval_seconds s1
             | Some l \<Rightarrow> if l = 0 \<or> l \<le> 0 then interval_seconds s1 else l)
      in tick_countdown pn
           (s1\<lparr>countdown_seconds_left := length_s, progress_maximum := length_s,
                progress_value := 0\<rparr>))"

subsection \<open>Display\<close>

definition stop_video :: "player \<Rightarrow> player" where
  "stop_video s = (if vlc_player s then emit Stop_video s else s)"

definition show_image :: "pystr \<Rightarrow> player \<Rightarrow> player" where
  "show_image path s = emit (Show_image path) s"

definition show_placeholder_video :: "pystr \<Rightarrow> player \<Rightarrow> player" where
  "show_placeholder_video path s = emit (Show_placeholder path) s"

definition play_video :: "pystr \<Rightarrow> player \<Rightarrow> player" where
  "play_video path s =
     (let s1 = emit Clear_panel s
      in if \<not> vlc_player s1 then s1 else emit (Play_video path) s1)"

definition pick_random_sfx :: "env \<Rightarrow> player \<Rightarrow> pystr option \<times> player" where
  "pick_random_sfx e s =
     (if sfx_files s = [] then (None, s)
      else (Some (sfx_files s ! randrange e (draws s) (length (sfx_files s))),
            s\<lparr>draws := Suc (draws s)\<rparr>))"

definition play_image_sfx :: "env \<Rightarrow> player \<Rightarrow> player" where
  "play_image_sfx e s =
     (if \<not> enable_image_sfx s then s
      else
        (case pick_random_sfx e s of
           (None, s1) \<Rightarrow> s1
         | (Some sfx_path, s1) \<Rightarrow>
             if sfx_path = [] \<or> \<not> path_exists e sfx_path then s1
             else if VLC_AVAILABLE e \<and> (vlc_instance s1 \<or> vlc_starts e)
             then emit (Play_sfx sfx_path) (s1\<lparr>vlc_instance := True\<rparr>)
             else if WINSOUND_AVAILABLE e \<and> endswith (lower e sfx_path) (str ''.wav'')
             then emit (Play_sfx sfx_path) s1
             else s1))"

subsection \<open>Playback\<close>

definition play_current ::
  "(player \<Rightarrow> player option) \<Rightarrow> env \<Rightarrow> player \<Rightarrow> player option" where
  "play_current pn e s0 =
     (let s = cancel_timers s0
      in case current_index s of
           None \<Rightarrow> Some s
         | Some idx \<Rightarrow>
             if idx < 0 \<or> idx \<ge> int (length (filtered_files s)) then Some s
             else
               (let path = filtered_files s ! nat idx;
                    ext = lower e (splitext_ext e path)
                in if ext \<in> set IMAGE_EXTS then
                     (let s1 = play_image_sfx e (show_image path (stop_video s))
                      in if is_running s1 \<and> \<not> is_paused s1
                         then start_countdown pn (interval_seconds s1) s1
                         else Some s1)
                   else if ext \<in> set VIDEO_EXTS then
                     (if \<not> VLC_AVAILABLE e \<or> \<not> vlc_player s then
                        (let s1 = show_placeholder_video path (stop_video s)
                         in if is_running s1 \<and> \<not> is_paused s1
                            then start_countdown pn (interval_seconds s1) s1
                            else Some s1)
                      else
                        (let s1 = play_video path s
                         in if loop_videos s1
                            then start_countdown_for_video_loop pn e path s1
                            else if is_running s1 \<and> \<not> is_paused s1
                            then start_countdown pn (interval_seconds s1) s1
                            else Some s1))
                   else Some (emit (Unknown_file_type path) s)))"

definition play_next_body ::
  "(player \<Rightarrow> player option) \<Rightarrow> env \<Rightarrow> player \<Rightarrow> player option" where
  "play_next_body pn e s =
     (if filtered_files s = [] then Some s
      else if shuffle s then
        play_current pn e
          (s\<lparr>current_index := Some (int (randrange e (draws s) (length (filtered_files s)))),
             draws := Suc (draws s)\<rparr>)
      else
        (case current_index s of
           None \<Rightarrow> play_current pn e (s\<lparr>current_index := Some 0\<rparr>)
         | Some i \<Rightarrow>
             play_current pn e
               (s\<lparr>current_index := Some ((i + 1) mod int (length (filtered_files s)))\<rparr>)))"

text \<open>\<open>play_next k\<close> is a call of \<open>play_next\<close> that may still be followed by \<open>k - 1\<close> calls
  of \<open>play_next\<close> nested in it.\<close>

primrec play_next :: "nat \<Rightarrow> env \<Rightarrow> player \<Rightarrow> player option" where
  "play_next 0 e s = None"
| "play_next (Suc k) e s = play_next_body (play_next k e) e s"

definition play_prev :: "nat \<Rightarrow> env \<Rightarrow> player \<Rightarrow> player option" where
  "play_prev k e s =
     (if filtered_files s = [] then Some s
      else if shuffle s then
        play_current (play_next k e) e
          (s\<lparr>current_index := Some (int (randrange e (draws s) (length (filtered_files s)))),
             draws := Suc (draws s)\<rparr>)
      else
        (case current_index s of
           None \<Rightarrow> play_current (play_next k e) e (s\<lparr>current_index := Some 0\<rparr>)
         | Some i \<Rightarrow>
             play_current (play_next k e) e
               (s\<lparr>current_index := Some ((i - 1) mod int (length (filtered_files s)))\<rparr>)))"

text \<open>\<open>sel\<close> is \<open>self.listbox.curselection()\<close>.\<close>

definition on_list_double :: "nat \<Rightarrow> env \<Rightarrow> nat list \<Rightarrow> player \<Rightarrow> player option" where
  "on_list_double k e sel s =
     (case sel of
        [] \<Rightarrow> Some s
      | i # _ \<Rightarrow> play_current (play_next k e) e (s\<lparr>current_index := Some (int i)\<rparr>))"

definition start :: "nat \<Rightarrow> env \<Rightarrow> player \<Rightarrow> player option" where
  "start k e s =
     (if filtered_files s = [] then Some (emit Warn_no_files s)
      else
        (let s1 = (if \<not> VLC_AVAILABLE e \<and>
                      list_ex (\<lambda>p. endswith_any (lower e p) VIDEO_EXTS) (filtered_files s)
                   then emit Warn_vlc_missing s else s);
             s2 = (if VLC_AVAILABLE e \<and> \<not> vlc_instance s1
                   then s1\<lparr>vlc_instance := vlc_starts e, vlc_player := vlc_starts e\<rparr>
                   else s1);
             s3 = s2\<lparr>is_running := True, is_paused := False\<rparr>;
             s4 = (case current_index s3 of
                     None \<Rightarrow> s3\<lparr>current_index := Some 0\<rparr>
                   | Some _ \<Rightarrow> s3)
         in play_current (play_next k e) e s4))"

definition stop :: "player \<Rightarrow> player" where
  "stop s =
     emit Clear_panel
       (stop_video (cancel_timers (s\<lparr>is_running := False, is_paused := False\<rparr>)))"

definition toggle_pause :: "env \<Rightarrow> player \<Rightarrow> player" where
  "toggle_pause e s =
     (if \<not> is_running s then s
      else if is_paused s then
        (let s1 = s\<lparr>is_paused := False\<rparr>;
             s2 = (case after_id s1 of
                     None \<Rightarrow>
                       (let (i, t) = after (interval_seconds s1 * 1000) Play_next s1
                        in t\<lparr>after_id := Some i\<rparr>)
                   | Some _ \<Rightarrow> s1)
         in if vlc_player s2 \<and> VLC_AVAILABLE e then emit Resume_video s2 else s2)
      else
        (let s1 = cancel_timers (s\<lparr>is_paused := True\<rparr>)
         in if vlc_player s1 \<and> VLC_AVAILABLE e then emit Pause_video s1 else s1))"

text \<open>The event loop runs the pending callback \<open>i\<close>.\<close>

definition fire :: "nat \<Rightarrow> env \<Rightarrow> nat \<Rightarrow> player \<Rightarrow> player option" where
  "fire k e i s =
     (case find (\<lambda>t. fst t = i) (pending s) of
        None \<Rightarrow> Some s
      | Some (_, _, cb) \<Rightarrow>
          (let s1 = s\<lparr>pending := filter (\<lambda>t. fst t \<noteq> i) (pending s)\<rparr>
           in case cb of
                Tick_countdown \<Rightarrow> tick_countdown (play_next k e) s1
              | Play_next \<Rightarrow> play_next (Suc k) e s1))"

subsection \<open>Catalog, search and playlists\<close>

definition apply_search_filter :: "env \<Rightarrow> player \<Rightarrow> player" where
  "apply_search_filter e s = s\<lparr>filtered_files := search_filter e (search_var s) (files s)\<rparr>"

definition load_files :: "env \<Rightarrow> player \<Rightarrow> player" where
  "load_files e s =
     (let s1 = s\<lparr>files := []\<rparr>
      in case folder s1 of
           None \<Rightarrow> s1
         | Some d \<Rightarrow>
             if d = [] then s1
             else
               (let found =
                      concat (map (\<lambda>(root, fns).
                                map (path_join e root)
                                  (filter (\<lambda>fn. endswith_any (lower e fn) PLAYABLE_EXTS) fns))
                              (walk e d))
                in (apply_search_filter e (s1\<lparr>files := sort found\<rparr>))\<lparr>current_index := None\<rparr>))"

text \<open>\<open>chosen\<close> is what the directory dialog returns.\<close>

definition select_folder :: "env \<Rightarrow> pystr \<Rightarrow> player \<Rightarrow> player" where
  "select_folder e chosen s =
     (if chosen = [] then s else load_files e (s\<lparr>folder := Some chosen\<rparr>))"

definition refresh_playlist_combo :: "player \<Rightarrow> player" where
  "refresh_playlist_combo s =
     (let names0 = sort (map fst (playlists s));
          s1 = (if names0 = [] then s\<lparr>current_playlist := str ''(None)''\<rparr> else s);
          names = (if names0 = [] then [str ''(None)''] else names0)
      in if current_playlist s1 \<notin> set names then s1\<lparr>current_playlist := hd names\<rparr> else s1)"

definition save_playlists :: "player \<Rightarrow> player" where
  "save_playlists s = refresh_playlist_combo (s\<lparr>playlists_file := Some (playlists s)\<rparr>)"

text \<open>\<open>name\<close> is what the dialog returns (\<open>None\<close> when it is cancelled).\<close>

definition playlist_new :: "pystr option \<Rightarrow> player \<Rightarrow> player" where
  "playlist_new name s =
     (case name of
        None \<Rightarrow> s
      | Some n \<Rightarrow>
          if n = [] then s
          else if n \<in> fst ` set (playlists s) then emit Info_playlist_exists s
          else refresh_playlist_combo (save_playlists (s\<lparr>playlists := playlists s @ [(n, [])]\<rparr>)))"

definition apply_selected_playlist :: "env \<Rightarrow> player \<Rightarrow> player" where
  "apply_selected_playlist e s =
     (let name = current_playlist s
      in if name = [] \<or> name = str ''(None)'' then s
         else
           (let stored = (case map_of (playlists s) name of None \<Rightarrow> [] | Some l \<Rightarrow> l);
                existing = filter (path_exists e) stored
            in apply_search_filter e (s\<lparr>files := existing\<rparr>)))"

subsection \<open>The program as a transition system\<close>

text \<open>
  What the user and the event loop can do to playback. Each action runs to its end on the
  event loop before the next one starts, as Tk runs the commands of buttons, bindings and
  \<open>after\<close> callbacks. Left out are the controls that do not touch the attributes of
  playback, the timer or the catalog: the volume sliders, the buttons for background
  music and for opening the sound folders, and adding files to or removing a playlist.
  The global hotkeys of the optional \<open>keyboard\<close> module call \<open>play_next\<close>, \<open>play_prev\<close> and
  \<open>toggle_pause\<close> from a thread of their own; here they are the actions \<open>Next\<close>, \<open>Prev\<close>
  and \<open>Toggle_pause\<close>, run between two callbacks like every other action.
\<close>

datatype action =
    Start
  | Stop
  | Toggle_pause
  | Next
  | Prev
  | Fire nat
  | List_double "nat list"
  | Select_folder pystr
  | Search pystr
  | Select_playlist pystr
  | New_playlist "pystr option"
  | Set_shuffle bool
  | Set_interval int
  | Set_loop bool

definition step :: "nat \<Rightarrow> env \<Rightarrow> action \<Rightarrow> player \<Rightarrow> player option" where
  "step k e a s =
     (case a of
        Start \<Rightarrow> start k e s
      | Stop \<Rightarrow> Some (stop s)
      | Toggle_pause \<Rightarrow> Some (toggle_pause e s)
      | Next \<Rightarrow> play_next (Suc k) e s
      | Prev \<Rightarrow> play_prev k e s
      | Fire i \<Rightarrow> fire k e i s
      | List_double sel \<Rightarrow> on_list_double k e sel s
      | Select_folder d \<Rightarrow> Some (select_folder e d s)
      | Search q \<Rightarrow> Some (apply_search_filter e (s\<lparr>search_var := q\<rparr>))
      | Select_playlist n \<Rightarrow> Some (apply_selected_playlist e (s\<lparr>current_playlist := n\<rparr>))
      | New_playlist n \<Rightarrow> Some (playlist_new n s)
      | Set_shuffle b \<Rightarrow> Some (s\<lparr>shuffle := b\<rparr>)
      | Set_interval v \<Rightarrow> Some (s\<lparr>interval_seconds := v\<rparr>)
      | Set_loop b \<Rightarrow> Some (s\<lparr>loop_videos := b\<rparr>))"

fun run :: "nat \<Rightarrow> env \<Rightarrow> action list \<Rightarrow> player \<Rightarrow> player option" where
  "run k e [] s = Some s"
| "run k e (a # as) s = (case step k e a s of None \<Rightarrow> None | Some s' \<Rightarrow> run k e as s')"

text \<open>The object after \<open>__init__\<close>, given the sound effects found and the content of
  playlists.json.\<close>

definition init :: "pystr list \<Rightarrow> (pystr \<times> pystr list) list option \<Rightarrow> player" where
  "init sfx doc =
     refresh_playlist_combo
       \<lparr>folder = None, files = [], filtered_files = [], current_index = None,
        is_running = False, is_paused = False, shuffle = True, interval_seconds = 30,
        loop_videos = False, vlc_instance = False, vlc_player = False,
        sfx_files = sfx, enable_image_sfx = True,
        playlists = (case doc of None \<Rightarrow> [] | Some d \<Rightarrow> d),
        current_playlist = str ''(None)'', search_var = [], after_id = None,
        countdown_seconds_left = 0, progress_value = 0, progress_maximum = 100,
        timer_label = None, playlists_file = doc, pending = [], next_id = 0, draws = 0,
        trace = []\<rparr>"

text \<open>The event loop runs the oldest pending callback, if there is one; and does so
  \<open>n\<close> times.\<close>

definition fire_pending :: "nat \<Rightarrow> env \<Rightarrow> player \<Rightarrow> player option" where
  "fire_pending k e s = (case pending s of [] \<Rightarrow> Some s | t # _ \<Rightarrow> fire k e (fst t) s)"

fun fire_times :: "nat \<Rightarrow> nat \<Rightarrow> env \<Rightarrow> player \<Rightarrow> player option" where
  "fire_times 0 k e s = Some s"
| "fire_times (Suc n) k e s =
     (case fire_pending k e s of None \<Rightarrow> None | Some s' \<Rightarrow> fire_times n k e s')"

section \<open>Predicates on states\<close>

text \<open>At most one callback is pending, and it is the one \<open>_after_id\<close> names.\<close>

definition timers_ok :: "player \<Rightarrow> bool" where
  "timers_ok s =
     (case after_id s of
        None \<Rightarrow> pending s = []
      | Some i \<Rightarrow>
          i < next_id s \<and> (case pending s of [] \<Rightarrow> True | t # ts \<Rightarrow> fst t = i \<and> ts = []))"

text \<open>The countdown is within its total.\<close>

definition countdown_ok :: "player \<Rightarrow> bool" where
  "countdown_ok s =
     (0 \<le> countdown_seconds_left s \<and> countdown_seconds_left s \<le> progress_maximum s)"

text \<open>The current index is absent or an index into the filtered view.\<close>

definition index_ok :: "player \<Rightarrow> bool" where
  "index_ok s =
     (case current_index s of
        None \<Rightarrow> True
      | Some i \<Rightarrow> 0 \<le> i \<and> i < int (length (filtered_files s)))"

text \<open>Two states agree on the catalog, the flags and the settings.\<close>

definition same_settings :: "player \<Rightarrow> player \<Rightarrow> bool" where
  "same_settings s t =
     (folder t = folder s \<and> files t = files s \<and> filtered_files t = filtered_files s
      \<and> is_running t = is_running s \<and> is_paused t = is_paused s \<and> shuffle t = shuffle s
      \<and> interval_seconds t = interval_seconds s \<and> loop_videos t = loop_videos s
      \<and> vlc_player t = vlc_player s \<and> sfx_files t = sfx_files s
      \<and> enable_image_sfx t = enable_image_sfx s \<and> playlists t = playlists s
      \<and> current_playlist t = current_playlist s \<and> search_var t = search_var s
      \<and> playlists_file t = playlists_file s)"


section \<open>An environment for examples\<close>

text \<open>
  The examples run on a POSIX system with file names in ASCII. There \<open>str.lower\<close> maps the
  letters A to Z to a to z and nothing else, \<open>os.path.basename\<close> is what follows the last
  slash, \<open>os.path.splitext\<close> splits at the last dot of the base name unless only dots
  stand before it, and \<open>os.path.join\<close> puts a slash between a directory and a name.
\<close>

definition ascii_lower :: "pystr \<Rightarrow> pystr" where
  "ascii_lower s = map (\<lambda>n. if 65 \<le> n \<and> n \<le> 90 then n + 32 else n) s"

definition posix_basename :: "pystr \<Rightarrow> pystr" where
  "posix_basename p = rev (takeWhile (\<lambda>c. c \<noteq> 47) (rev p))"

definition posix_splitext_ext :: "pystr \<Rightarrow> pystr" where
  "posix_splitext_ext p =
     (let b = posix_basename p;
          suf = rev (takeWhile (\<lambda>c. c \<noteq> 46) (rev b));
          stem = take (length b - length suf - 1) b
      in if length suf < length b \<and> list_ex (\<lambda>c. c \<noteq> 46) stem then 46 # suf else [])"

definition posix_join :: "pystr \<Rightarrow> pystr \<Rightarrow> pystr" where
  "posix_join root fn =
     (if root = [] then fn else if last root = 47 then root @ fn else root @ [47] @ fn)"

text \<open>VLC is installed; the files on disk, the durations, the directory tree and the
  random draws are given.\<close>

definition example_env ::
  "(pystr \<Rightarrow> bool) \<Rightarrow> (pystr \<Rightarrow> int option) \<Rightarrow> (pystr \<Rightarrow> (pystr \<times> pystr list) list)
   \<Rightarrow> (nat \<Rightarrow> nat \<Rightarrow> nat) \<Rightarrow> env" where
  "example_env ex dur tree gen =
     \<lparr>str_lower = ascii_lower, basename = posix_basename, splitext_ext = posix_splitext_ext,
      path_join = posix_join, VLC_AVAILABLE = True, WINSOUND_AVAILABLE = False,
      vlc_starts = True, path_exists = ex, get_duration = dur, walk = tree, rng = gen\<rparr>"

text \<open>What playing an item keeps: the index, the catalog, the flags and the settings; that
  at most one callback is pending; and, when the interval is not negative, that the
  countdown is within its total.\<close>

definition keeps :: "player \<Rightarrow> player \<Rightarrow> bool" where
  "keeps s t =
     (current_index t = current_index s \<and> same_settings s t
      \<and> (timers_ok s \<longrightarrow> timers_ok t)
      \<and> (countdown_ok s \<and> 0 \<le> interval_seconds s \<longrightarrow> countdown_ok t))"

text \<open>No call of \<open>play_next\<close> is nested in the playing of an item: the interval is
  positive, or the player is stopped or paused.\<close>

definition settled :: "player \<Rightarrow> bool" where
  "settled s = (0 < interval_seconds s \<or> \<not> is_running s \<or> is_paused s)"



text \<open>The timers and the countdown are in order and the interval is positive.\<close>

definition timer_inv :: "player \<Rightarrow> bool" where
  "timer_inv s = (timers_ok s \<and> countdown_ok s \<and> 0 < interval_seconds s)"

section \<open>The player of MemePlayer.py\<close>

text \<open>
  The first version of the program has no search box, no playlists and no countdown
  display: its catalog is \<open>files\<close>, and \<open>_play_current\<close> schedules \<open>play_next\<close> with
  \<open>after\<close> itself, so no call of \<open>play_next\<close> is nested in another and every call
  returns. It is modelled on the same state; the attributes it does not have stay as they
  are. Its display helpers make the same calls to the widgets and to VLC as those above.
  The \<open>threading.Timer\<close> that stops a video after the interval only calls \<open>_stop_video\<close>;
  it is outside the event loop and is left out.
\<close>

definition IMAGE_EXTS0 :: "pystr list" where
  "IMAGE_EXTS0 = map str [''.png'', ''.jpg'', ''.jpeg'', ''.webp'']"

definition VIDEO_EXTS0 :: "pystr list" where
  "VIDEO_EXTS0 = map str [''.mp4'', ''.mov'', ''.m4v'']"

definition PLAYABLE_EXTS0 :: "pystr list" where
  "PLAYABLE_EXTS0 = IMAGE_EXTS0 @ VIDEO_EXTS0"

definition cancel_timers0 :: "player \<Rightarrow> player" where
  "cancel_timers0 s =
     (case after_id s of None \<Rightarrow> s | Some i \<Rightarrow> (after_cancel i s)\<lparr>after_id := None\<rparr>)"

definition play_current0 :: "env \<Rightarrow> player \<Rightarrow> player" where
  "play_current0 e s0 =
     (let s = cancel_timers0 s0
      in case current_index s of
           None \<Rightarrow> s
         | Some idx \<Rightarrow>
             if idx < 0 \<or> idx \<ge> int (length (files s)) then s
             else
               (let path = files s ! nat idx;
                    ext = lower e (splitext_ext e path);
                    s1 = (if ext \<in> set IMAGE_EXTS0 then show_image path (stop_video s)
                          else if ext \<in> set VIDEO_EXTS0 then
                            (if \<not> VLC_AVAILABLE e
                             then show_placeholder_video path (stop_video s)
                             else play_video path s)
                          else emit (Unknown_file_type path) s)
                in if is_running s1 \<and> \<not> is_paused s1
                   then (let (i, t) = after (interval_seconds s1 * 1000) Play_next s1
                         in t\<lparr>after_id := Some i\<rparr>)
                   else s1))"

definition play_next0 :: "env \<Rightarrow> player \<Rightarrow> player" where
  "play_next0 e s =
     (if files s = [] then s
      else if shuffle s then
        play_current0 e
          (s\<lparr>current_index := Some (int (randrange e (draws s) (length (files s)))),
             draws := Suc (draws s)\<rparr>)
      else
        (case current_index s of
           None \<Rightarrow> play_current0 e (s\<lparr>current_index := Some 0\<rparr>)
         | Some i \<Rightarrow>
             play_current0 e (s\<lparr>current_index := Some ((i + 1) mod int (length (files s)))\<rparr>)))"

definition play_prev0 :: "env \<Rightarrow> player \<Rightarrow> player" where
  "play_prev0 e s =
     (if files s = [] then s
      else if shuffle s then
        play_current0 e
          (s\<lparr>current_index := Some (int (randrange e (draws s) (length (files s)))),
             draws := Suc (draws s)\<rparr>)
      else
        (case current_index s of
           None \<Rightarrow> play_current0 e (s\<lparr>current_index := Some 0\<rparr>)
         | Some i \<Rightarrow>
             play_current0 e (s\<lparr>current_index := Some ((i - 1) mod int (length (files s)))\<rparr>)))"

definition on_list_double0 :: "env \<Rightarrow> nat list \<Rightarrow> player \<Rightarrow> player" where
  "on_list_double0 e sel s =
     (case sel of [] \<Rightarrow> s | i # _ \<Rightarrow> play_current0 e (s\<lparr>current_index := Some (int i)\<rparr>))"

text \<open>\<open>start\<close> of MemePlayer.py creates the VLC objects outside any \<open>try\<close>: when that fails
  the exception ends \<open>start\<close> before the flags are set.\<close>

definition start0 :: "env \<Rightarrow> player \<Rightarrow> player" where
  "start0 e s =
     (if folder s = None \<or> folder s = Some [] \<or> files s = [] then emit Warn_no_files s
      else
        (let s1 = (if \<not> VLC_AVAILABLE e \<and>
                      list_ex (\<lambda>f. endswith_any (lower e f) VIDEO_EXTS0) (files s)
                   then emit Warn_vlc_missing s else s)
         in if \<not> vlc_instance s1 \<and> VLC_AVAILABLE e \<and> \<not> vlc_starts e then s1
            else
              (let s2 = (if \<not> vlc_instance s1 \<and> VLC_AVAILABLE e
                         then s1\<lparr>vlc_instance := True, vlc_player := True\<rparr> else s1);
                   s3 = s2\<lparr>is_running := True, is_paused := False\<rparr>;
                   s4 = (case current_index s3 of
                           None \<Rightarrow> s3\<lparr>current_index := Some 0\<rparr>
                         | Some _ \<Rightarrow> s3)
               in play_current0 e s4)))"

definition stop0 :: "player \<Rightarrow> player" where
  "stop0 s =
     emit Clear_panel
       (stop_video (cancel_timers0 (s\<lparr>is_running := False, is_paused := False\<rparr>)))"

definition toggle_pause0 :: "env \<Rightarrow> player \<Rightarrow> player" where
  "toggle_pause0 e s =
     (if \<not> is_running s then s
      else if is_paused s then
        (let s1 = s\<lparr>is_paused := False\<rparr>;
             s2 = (case after_id s1 of
                     None \<Rightarrow>
                       (let (i, t) = after (interval_seconds s1 * 1000) Play_next s1
                        in t\<lparr>after_id := Some i\<rparr>)
                   | Some _ \<Rightarrow> s1)
         in if vlc_player s2 \<and> VLC_AVAILABLE e then emit Resume_video s2 else s2)
      else
        (let s1 = cancel_timers0 (s\<lparr>is_paused := True\<rparr>)
         in if vlc_player s1 \<and> VLC_AVAILABLE e then emit Pause_video s1 else s1))"

text \<open>\<open>select_folder\<close> with \<open>_load_files\<close>, which it calls once the folder is set.\<close>

definition select_folder0 :: "env \<Rightarrow> pystr \<Rightarrow> player \<Rightarrow> player" where
  "select_folder0 e chosen s =
     (if chosen = [] then s
      else
        (let found =
               concat (map (\<lambda>(root, fns).
                         map (path_join e root)
                           (filter (\<lambda>fn. endswith_any (lower e fn) PLAYABLE_EXTS0) fns))
                       (walk e chosen))
         in s\<lparr>folder := Some chosen, files := sort found, current_index := None\<rparr>))"

definition fire0 :: "env \<Rightarrow> nat \<Rightarrow> player \<Rightarrow> player" where
  "fire0 e i s =
     (case find (\<lambda>t. fst t = i) (pending s) of
        None \<Rightarrow> s
      | Some (_, _, cb) \<Rightarrow>
          (let s1 = s\<lparr>pending := filter (\<lambda>t. fst t \<noteq> i) (pending s)\<rparr>
           in case cb of Tick_countdown \<Rightarrow> s1 | Play_next \<Rightarrow> play_next0 e s1))"

text \<open>The actions for controls that MemePlayer.py does not have leave the state as it
  is.\<close>

definition step0 :: "env \<Rightarrow> action \<Rightarrow> player \<Rightarrow> player" where
  "step0 e a s =
     (case a of
        Start \<Rightarrow> start0 e s
      | Stop \<Rightarrow> stop0 s
      | Toggle_pause \<Rightarrow> toggle_pause0 e s
      | Next \<Rightarrow> play_next0 e s
      | Prev \<Rightarrow> play_prev0 e s
      | Fire i \<Rightarrow> fire0 e i s
      | List_double sel \<Rightarrow> on_list_double0 e sel s
      | Select_folder d \<Rightarrow> select_folder0 e d s
      | Set_shuffle b \<Rightarrow> s\<lparr>shuffle := b\<rparr>
      | Set_interval v \<Rightarrow> s\<lparr>interval_seconds := v\<rparr>
      | _ \<Rightarrow> s)"

fun run0 :: "env \<Rightarrow> action list \<Rightarrow> player \<Rightarrow> player" where
  "run0 e [] s = s"
| "run0 e (a # as) s = run0 e as (step0 e a s)"

text \<open>
  A folder \<open>/m\<close> with three playable files, all on disk, whose durations VLC does not
  know; the \<open>j\<close>-th draw of the random generator gives \<open>j + 1\<close>. \<open>demo_loaded\<close> is the
  program after the folder was chosen; \<open>demo_playing\<close> is the program after shuffle was
  switched off, the interval set to 5 seconds and Start pressed.
\<close>

definition demo_env :: env where
  "demo_env =
     example_env (\<lambda>p. True) (\<lambda>p. None)
       (\<lambda>d. [(d, map str [''a.png'', ''b.mp4'', ''c.jpg''])]) (\<lambda>j n. j + 1)"

definition demo_loaded :: player where
  "demo_loaded = select_folder demo_env (str ''/m'') (init [] None)"

definition demo_playing :: player where
  "demo_playing =
     the (run 0 demo_env [Set_shuffle False, Set_interval 5, Start] demo_loaded)"

text \<open>\<open>demo_paused\<close> is \<open>demo_playing\<close> after Pause was pressed.\<close>

definition demo_paused :: player where
  "demo_paused = the (run 0 demo_env [Toggle_pause] demo_playing)"




text \<open>\<open>demo_searched\<close>: from \<open>demo_playing\<close>, Next was pressed twice and then \<open>a\<close> typed
  into the search box.\<close>

definition demo_searched :: "player option" where
  "demo_searched = run 0 demo_env [Next, Next, Search (str ''a'')] demo_playing"

text \<open>The same folder where VLC knows every duration to be 3000 ms; \<open>loop_playing\<close>: the
  folder was chosen, shuffle switched off, the loop box ticked, Start and then Next
  pressed.\<close>

definition loop_env :: env where
  "loop_env =
     example_env (\<lambda>p. True) (\<lambda>p. Some 3000)
       (\<lambda>d. [(d, map str [''a.png'', ''b.mp4'', ''c.jpg''])]) (\<lambda>j n. j + 1)"

definition loop_playing :: player where
  "loop_playing =
     the (run 0 loop_env [Set_shuffle False, Set_loop True, Start, Next]
            (select_folder loop_env (str ''/m'') (init [] None)))"

text \<open>\<open>demo_playing0\<close> is the program of MemePlayer.py after the same folder was chosen,
  shuffle switched off, the interval set to 5 seconds and Start pressed. Its \<open>__init__\<close>
  gives the attributes it has the values that \<open>init\<close> gives them.\<close>

definition demo_playing0 :: player where
  "demo_playing0 =
     run0 demo_env [Select_folder (str ''/m''), Set_shuffle False, Set_interval 5, Start]
       (init [] None)"

section \<open>Properties of the search filter\<close>

lemma take_length_eq_iff: "(take (length q) xs = q) = (\<exists>post. xs = q @ post)"
proof
  assume "take (length q) xs = q"
  then have "xs = q @ drop (length q) xs" by (metis append_take_drop_id)
  then show "\<exists>post. xs = q @ post" ..
next
  assume "\<exists>post. xs = q @ post"
  then show "take (length q) xs = q" by auto
qed

text \<open>\<open>contains\<close> is the substring test.\<close>

lemma contains_iff: "contains q s = (\<exists>pre post. s = pre @ q @ post)"
proof (induction s)
  case Nil
  show ?case by auto
next
  case (Cons c cs)
  show ?case
  proof
    assume "contains q (c # cs)"
    then consider "take (length q) (c # cs) = q" | "contains q cs" by auto
    then show "\<exists>pre post. c # cs = pre @ q @ post"
    proof cases
      case 1
      then obtain post where "c # cs = q @ post" using take_length_eq_iff by blast
      then have "c # cs = [] @ q @ post" by simp
      then show ?thesis by blast
    next
      case 2
      then obtain pre post where "cs = pre @ q @ post" using Cons.IH by blast
      then have "c # cs = (c # pre) @ q @ post" by simp
      then show ?thesis by blast
    qed
  next
    assume "\<exists>pre post. c # cs = pre @ q @ post"
    then obtain pre post where eq: "c # cs = pre @ q @ post" by blast
    show "contains q (c # cs)"
    proof (cases pre)
      case Nil
      then have "take (length q) (c # cs) = q"
        using eq take_length_eq_iff[of q "c # cs"] by auto
      then show ?thesis by simp
    next
      case (Cons a pre')
      then have "cs = pre' @ q @ post" using eq by simp
      then have "contains q cs" using Cons.IH by blast
      then show ?thesis by simp
    qed
  qed
qed

lemma search_filter_idem: "search_filter e q (search_filter e q c) = search_filter e q c"
  by (simp add: search_filter_def Let_def)

lemma strip_blank: "strip (str ''  '') = []"
  by (simp add: strip_def str_def is_space_def)

text \<open>
  Claim C7. Whatever \<open>str.lower\<close> and \<open>os.path.basename\<close> are: filtering with the empty
  query, or with a query of blanks, gives the catalog back; filtering twice with the same
  query gives what filtering once gives; \<open>_apply_search_filter\<close> stores the filter of
  \<open>files\<close> by the text of the search box in \<open>filtered_files\<close>; and for a query that is
  not blank the result is the catalog, in its order and with its repetitions, without
  the files whose lower-cased base name does not contain the lower-cased, stripped query.
  The last conjunct is a run on a POSIX system with ASCII names.
\<close>

theorem search_filter_identity_idempotent:
  "search_filter e [] c = c
   \<and> search_filter e (str ''  '') c = c
   \<and> search_filter e q (search_filter e q c) = search_filter e q c
   \<and> filtered_files (apply_search_filter e s) = search_filter e (search_var s) (files s)
   \<and> filtered_files (apply_search_filter e (s\<lparr>search_var := []\<rparr>)) = files s
   \<and> search_filter e q c =
       (if lower e (strip q) = [] then c
        else filter (\<lambda>f. \<exists>pre post. lower e (basename e f) = pre @ lower e (strip q) @ post) c)
   \<and> search_filter (example_env ex dur tree gen) (str ''CAT'')
         [str ''/m/Cat.png'', str ''/m/dog.png'', str ''/cat/x.png'', str ''/m/Cat.png'']
       = [str ''/m/Cat.png'', str ''/m/Cat.png'']"
proof -
  have a: "search_filter e [] c = c" for c
    by (simp add: search_filter_def strip_def lower_def)
  have a': "search_filter e (str ''  '') c = c"
    by (simp add: search_filter_def strip_blank lower_def)
  have b: "search_filter e q (search_filter e q c) = search_filter e q c"
    by (rule search_filter_idem)
  have c: "filtered_files (apply_search_filter e s) = search_filter e (search_var s) (files s)"
    for s
    by (simp add: apply_search_filter_def)
  have d: "search_filter e q c =
       (if lower e (strip q) = [] then c
        else filter (\<lambda>f. \<exists>pre post. lower e (basename e f) = pre @ lower e (strip q) @ post) c)"
    by (simp add: search_filter_def Let_def contains_iff)
  have x: "search_filter (example_env ex dur tree gen) (str ''CAT'')
         [str ''/m/Cat.png'', str ''/m/dog.png'', str ''/cat/x.png'', str ''/m/Cat.png'']
       = [str ''/m/Cat.png'', str ''/m/Cat.png'']"
    by (simp add: search_filter_def example_env_def lower_def strip_def str_def is_space_def
        ascii_lower_def posix_basename_def Let_def)
  show ?thesis using a a' b c[of s] c[of "s\<lparr>search_var := []\<rparr>"] d x by simp
qed

section \<open>Frame lemmas\<close>

lemma emit_frame [simp]:
  "folder (emit ev s) = folder s"
  "files (emit ev s) = files s"
  "filtered_files (emit ev s) = filtered_files s"
  "current_index (emit ev s) = current_index s"
  "is_running (emit ev s) = is_running s"
  "is_paused (emit ev s) = is_paused s"
  "shuffle (emit ev s) = shuffle s"
  "interval_seconds (emit ev s) = interval_seconds s"
  "loop_videos (emit ev s) = loop_videos s"
  "vlc_instance (emit ev s) = vlc_instance s"
  "vlc_player (emit ev s) = vlc_player s"
  "sfx_files (emit ev s) = sfx_files s"
  "enable_image_sfx (emit ev s) = enable_image_sfx s"
  "playlists (emit ev s) = playlists s"
  "current_playlist (emit ev s) = current_playlist s"
  "search_var (emit ev s) = search_var s"
  "after_id (emit ev s) = after_id s"
  "countdown_seconds_left (emit ev s) = countdown_seconds_left s"
  "progress_value (emit ev s) = progress_value s"
  "progress_maximum (emit ev s) = progress_maximum s"
  "timer_label (emit ev s) = timer_label s"
  "playlists_file (emit ev s) = playlists_file s"
  "pending (emit ev s) = pending s"
  "next_id (emit ev s) = next_id s"
  "draws (emit ev s) = draws s"
  by (simp_all add: emit_def)

lemma after_cancel_frame [simp]:
  "folder (after_cancel i s) = folder s"
  "files (after_cancel i s) = files s"
  "filtered_files (after_cancel i s) = filtered_files s"
  "current_index (after_cancel i s) = current_index s"
  "is_running (after_cancel i s) = is_running s"
  "is_paused (after_cancel i s) = is_paused s"
  "shuffle (after_cancel i s) = shuffle s"
  "interval_seconds (after_cancel i s) = interval_seconds s"
  "loop_videos (after_cancel i s) = loop_videos s"
  "vlc_instance (after_cancel i s) = vlc_instance s"
  "vlc_player (after_cancel i s) = vlc_player s"
  "sfx_files (after_cancel i s) = sfx_files s"
  "enable_image_sfx (after_cancel i s) = enable_image_sfx s"
  "playlists (after_cancel i s) = playlists s"
  "current_playlist (after_cancel i s) = current_playlist s"
  "search_var (after_cancel i s) = search_var s"
  "after_id (after_cancel i s) = after_id s"
  "countdown_seconds_left (after_cancel i s) = countdown_seconds_left s"
  "progress_value (after_cancel i s) = progress_value s"
  "progress_maximum (after_cancel i s) = progress_maximum s"
  "timer_label (after_cancel i s) = timer_label s"
  "playlists_file (after_cancel i s) = playlists_file s"
  "next_id (after_cancel i s) = next_id s"
  "draws (after_cancel i s) = draws s"
  "trace (after_cancel i s) = trace s"
  by (simp_all add: after_cancel_def)

lemma cancel_timers_frame [simp]:
  "folder (cancel_timers s) = folder s"
  "files (cancel_timers s) = files s"
  "filtered_files (cancel_timers s) = filtered_files s"
  "current_index (cancel_timers s) = current_index s"
  "is_running (cancel_timers s) = is_running s"
  "is_paused (cancel_timers s) = is_paused s"
  "shuffle (cancel_timers s) = shuffle s"
  "interval_seconds (cancel_timers s) = interval_seconds s"
  "loop_videos (cancel_timers s) = loop_videos s"
  "vlc_instance (cancel_timers s) = vlc_instance s"
  "vlc_player (cancel_timers s) = vlc_player s"
  "sfx_files (cancel_timers s) = sfx_files s"
  "enable_image_sfx (cancel_timers s) = enable_image_sfx s"
  "playlists (cancel_timers s) = playlists s"
  "current_playlist (cancel_timers s) = current_playlist s"
  "search_var (cancel_timers s) = search_var s"
  "progress_maximum (cancel_timers s) = progress_maximum s"
  "playlists_file (cancel_timers s) = playlists_file s"
  "next_id (cancel_timers s) = next_id s"
  "draws (cancel_timers s) = draws s"
  "trace (cancel_timers s) = trace s"
  by (simp_all add: cancel_timers_def after_cancel_def split: option.split)

lemma stop_video_frame [simp]:
  "folder (stop_video s) = folder s"
  "files (stop_video s) = files s"
  "filtered_files (stop_video s) = filtered_files s"
  "current_index (stop_video s) = current_index s"
  "is_running (stop_video s) = is_running s"
  "is_paused (stop_video s) = is_paused s"
  "shuffle (stop_video s) = shuffle s"
  "interval_seconds (stop_video s) = interval_seconds s"
  "loop_videos (stop_video s) = loop_videos s"
  "vlc_instance (stop_video s) = vlc_instance s"
  "vlc_player (stop_video s) = vlc_player s"
  "sfx_files (stop_video s) = sfx_files s"
  "enable_image_sfx (stop_video s) = enable_image_sfx s"
  "playlists (stop_video s) = playlists s"
  "current_playlist (stop_video s) = current_playlist s"
  "search_var (stop_video s) = search_var s"
  "after_id (stop_video s) = after_id s"
  "countdown_seconds_left (stop_video s) = countdown_seconds_left s"
  "progress_value (stop_video s) = progress_value s"
  "progress_maximum (stop_video s) = progress_maximum s"
  "timer_label (stop_video s) = timer_label s"
  "playlists_file (stop_video s) = playlists_file s"
  "pending (stop_video s) = pending s"
  "next_id (stop_video s) = next_id s"
  "draws (stop_video s) = draws s"
  by (simp_all add: stop_video_def emit_def)

lemma show_image_frame [simp]:
  "folder (show_image p s) = folder s"
  "files (show_image p s) = files s"
  "filtered_files (show_image p s) = filtered_files s"
  "current_index (show_image p s) = current_index s"
  "is_running (show_image p s) = is_running s"
  "is_paused (show_image p s) = is_paused s"
  "shuffle (show_image p s) = shuffle s"
  "interval_seconds (show_image p s) = interval_seconds s"
  "loop_videos (show_image p s) = loop_videos s"
  "vlc_instance (show_image p s) = vlc_instance s"
  "vlc_player (show_image p s) = vlc_player s"
  "sfx_files (show_image p s) = sfx_files s"
  "enable_image_sfx (show_image p s) = enable_image_sfx s"
  "playlists (show_image p s) = playlists s"
  "current_playlist (show_image p s) = current_playlist s"
  "search_var (show_image p s) = search_var s"
  "after_id (show_image p s) = after_id s"
  "countdown_seconds_left (show_image p s) = countdown_seconds_left s"
  "progress_value (show_image p s) = progress_value s"
  "progress_maximum (show_image p s) = progress_maximum s"
  "timer_label (show_image p s) = timer_label s"
  "playlists_file (show_image p s) = playlists_file s"
  "pending (show_image p s) = pending s"
  "next_id (show_image p s) = next_id s"
  "draws (show_image p s) = draws s"
  by (simp_all add: show_image_def emit_def)

lemma show_placeholder_video_frame [simp]:
  "folder (show_placeholder_video p s) = folder s"
  "files (show_placeholder_video p s) = files s"
  "filtered_files (show_placeholder_video p s) = filtered_files s"
  "current_index (show_placeholder_video p s) = current_index s"
  "is_running (show_placeholder_video p s) = is_running s"
  "is_paused (show_placeholder_video p s) = is_paused s"
  "shuffle (show_placeholder_video p s) = shuffle s"
  "interval_seconds (show_placeholder_video p s) = interval_seconds s"
  "loop_videos (show_placeholder_video p s) = loop_videos s"
  "vlc_instance (show_placeholder_video p s) = vlc_instance s"
  "vlc_player (show_placeholder_video p s) = vlc_player s"
  "sfx_files (show_placeholder_video p s) = sfx_files s"
  "enable_image_sfx (show_placeholder_video p s) = enable_image_sfx s"
  "playlists (show_placeholder_video p s) = playlists s"
  "current_playlist (show_placeholder_video p s) = current_playlist s"
  "search_var (show_placeholder_video p s) = search_var s"
  "after_id (show_placeholder_video p s) = after_id s"
  "countdown_seconds_left (show_placeholder_video p s) = countdown_seconds_left s"
  "progress_value (show_placeholder_video p s) = progress_value s"
  "progress_maximum (show_placeholder_video p s) = progress_maximum s"
  "timer_label (show_placeholder_video p s) = timer_label s"
  "playlists_file (show_placeholder_video p s) = playlists_file s"
  "pending (show_placeholder_video p s) = pending s"
  "next_id (show_placeholder_video p s) = next_id s"
  "draws (show_placeholder_video p s) = draws s"
  by (simp_all add: show_placeholder_video_def emit_def)

lemma play_video_frame [simp]:
  "folder (play_video p s) = folder s"
  "files (play_video p s) = files s"
  "filtered_files (play_video p s) = filtered_files s"
  "current_index (play_video p s) = current_index s"
  "is_running (play_video p s) = is_running s"
  "is_paused (play_video p s) = is_paused s"
  "shuffle (play_video p s) = shuffle s"
  "interval_seconds (play_video p s) = interval_seconds s"
  "loop_videos (play_video p s) = loop_videos s"
  "vlc_instance (play_video p s) = vlc_instance s"
  "vlc_player (play_video p s) = vlc_player s"
  "sfx_files (play_video p s) = sfx_files s"
  "enable_image_sfx (play_video p s) = enable_image_sfx s"
  "playlists (play_video p s) = playlists s"
  "current_playlist (play_video p s) = current_playlist s"
  "search_var (play_video p s) = search_var s"
  "after_id (play_video p s) = after_id s"
  "countdown_seconds_left (play_video p s) = countdown_seconds_left s"
  "progress_value (play_video p s) = progress_value s"
  "progress_maximum (play_video p s) = progress_maximum s"
  "timer_label (play_video p s) = timer_label s"
  "playlists_file (play_video p s) = playlists_file s"
  "pending (play_video p s) = pending s"
  "next_id (play_video p s) = next_id s"
  "draws (play_video p s) = draws s"
  by (simp_all add: play_video_def emit_def Let_def)

lemma play_image_sfx_frame [simp]:
  "folder (play_image_sfx e s) = folder s"
  "files (play_image_sfx e s) = files s"
  "filtered_files (play_image_sfx e s) = filtered_files s"
  "current_index (play_image_sfx e s) = current_index s"
  "is_running (play_image_sfx e s) = is_running s"
  "is_paused (play_image_sfx e s) = is_paused s"
  "shuffle (play_image_sfx e s) = shuffle s"
  "interval_seconds (play_image_sfx e s) = interval_seconds s"
  "loop_videos (play_image_sfx e s) = loop_videos s"
  "vlc_player (play_image_sfx e s) = vlc_player s"
  "sfx_files (play_image_sfx e s) = sfx_files s"
  "enable_image_sfx (play_image_sfx e s) = enable_image_sfx s"
  "playlists (play_image_sfx e s) = playlists s"
  "current_playlist (play_image_sfx e s) = current_playlist s"
  "search_var (play_image_sfx e s) = search_var s"
  "after_id (play_image_sfx e s) = after_id s"
  "countdown_seconds_left (play_image_sfx e s) = countdown_seconds_left s"
  "progress_value (play_image_sfx e s) = progress_value s"
  "progress_maximum (play_image_sfx e s) = progress_maximum s"
  "timer_label (play_image_sfx e s) = timer_label s"
  "playlists_file (play_image_sfx e s) = playlists_file s"
  "pending (play_image_sfx e s) = pending s"
  "next_id (play_image_sfx e s) = next_id s"
  by (simp_all add: play_image_sfx_def pick_random_sfx_def emit_def split: prod.split option.split)


lemma cancel_timers_after_id [simp]: "after_id (cancel_timers s) = None"
  by (simp add: cancel_timers_def split: option.split)

lemma cancel_timers_pending:
  "pending (cancel_timers s) =
     (case after_id s of None \<Rightarrow> pending s | Some i \<Rightarrow> filter (\<lambda>t. fst t \<noteq> i) (pending s))"
  by (simp add: cancel_timers_def after_cancel_def split: option.split)

lemma cancel_timers_idem [simp]: "after_id s = None \<Longrightarrow> cancel_timers s = s"
  by (simp add: cancel_timers_def)

lemma timers_ok_cancel_pending [simp]: "timers_ok s \<Longrightarrow> pending (cancel_timers s) = []"
  by (auto simp: timers_ok_def cancel_timers_pending split: option.splits list.splits)

lemma countdown_ok_cancel: "countdown_ok s \<Longrightarrow> countdown_ok (cancel_timers s)"
  by (auto simp: countdown_ok_def cancel_timers_def after_cancel_def split: option.splits)

subsection \<open>The three cases of a tick\<close>

lemma tick_countdown_idle:
  "\<not> is_running s \<or> is_paused s \<Longrightarrow> tick_countdown pn s = Some s"
  by (simp add: tick_countdown_def)

lemma tick_countdown_over:
  "is_running s \<Longrightarrow> \<not> is_paused s \<Longrightarrow> countdown_seconds_left s \<le> 0 \<Longrightarrow>
   tick_countdown pn s = pn (s\<lparr>timer_label := Some 0, progress_value := progress_maximum s\<rparr>)"
  by (simp add: tick_countdown_def)

lemma tick_countdown_armed:
  "is_running s \<Longrightarrow> \<not> is_paused s \<Longrightarrow> 0 < countdown_seconds_left s \<Longrightarrow>
   tick_countdown pn s =
     Some (s\<lparr>timer_label := Some (countdown_seconds_left s),
             progress_value := progress_value s + 1,
             countdown_seconds_left := countdown_seconds_left s - 1,
             pending := pending s @ [(next_id s, 1000, Tick_countdown)],
             next_id := Suc (next_id s),
             after_id := Some (next_id s)\<rparr>)"
  by (simp add: tick_countdown_def after_def Let_def)

subsection \<open>The catalog, the flags and the settings through playback\<close>

lemma same_settings_refl [simp]: "same_settings s s"
  by (simp add: same_settings_def)

lemma same_settings_trans: "same_settings a b \<Longrightarrow> same_settings b c \<Longrightarrow> same_settings a c"
  by (simp add: same_settings_def)

lemma same_settings_cancel [simp]: "same_settings s (cancel_timers s)"
  by (simp add: same_settings_def)

lemma tick_countdown_same:
  assumes pn: "\<And>a b. pn a = Some b \<Longrightarrow> same_settings a b"
    and r: "tick_countdown pn s = Some s'"
  shows "same_settings s s'"
proof (cases "\<not> is_running s \<or> is_paused s")
  case True
  then show ?thesis using r by (simp add: tick_countdown_idle)
next
  case False
  then have run: "is_running s" "\<not> is_paused s" by auto
  show ?thesis
  proof (cases "countdown_seconds_left s \<le> 0")
    case True
    then have "pn (s\<lparr>timer_label := Some 0, progress_value := progress_maximum s\<rparr>) = Some s'"
      using r run by (simp add: tick_countdown_over)
    from pn[OF this] show ?thesis by (simp add: same_settings_def)
  next
    case False
    then have "0 < countdown_seconds_left s" by simp
    from tick_countdown_armed[OF run this, of pn] r show ?thesis
      by (auto simp: same_settings_def)
  qed
qed

lemma start_countdown_same:
  assumes pn: "\<And>a b. pn a = Some b \<Longrightarrow> same_settings a b"
    and r: "start_countdown pn sec s = Some s'"
  shows "same_settings s s'"
proof -
  let ?m = "(cancel_timers s)\<lparr>countdown_seconds_left := sec, progress_maximum := sec,
                               progress_value := 0\<rparr>"
  have "same_settings ?m s'"
    using tick_countdown_same[of pn ?m s'] pn r by (simp add: start_countdown_def)
  then show ?thesis by (simp add: same_settings_def)
qed

lemma start_countdown_for_video_loop_same:
  assumes pn: "\<And>a b. pn a = Some b \<Longrightarrow> same_settings a b"
    and r: "start_countdown_for_video_loop pn e path s = Some s'"
  shows "same_settings s s'"
proof -
  obtain l where "tick_countdown pn
       ((cancel_timers s)\<lparr>countdown_seconds_left := l, progress_maximum := l,
                           progress_value := 0\<rparr>) = Some s'"
    using r by (simp add: start_countdown_for_video_loop_def Let_def)
  from tick_countdown_same[of pn, OF _ this] pn show ?thesis by (simp add: same_settings_def)
qed

lemma same_settings_display [simp]:
  "same_settings s (emit ev t) = same_settings s t"
  "same_settings s (stop_video t) = same_settings s t"
  "same_settings s (show_image p t) = same_settings s t"
  "same_settings s (show_placeholder_video p t) = same_settings s t"
  "same_settings s (play_video p t) = same_settings s t"
  "same_settings s (play_image_sfx e t) = same_settings s t"
  "same_settings s (cancel_timers t) = same_settings s t"
  by (simp_all add: same_settings_def)

lemma same_settings_display_left [simp]:
  "same_settings (emit ev t) s = same_settings t s"
  "same_settings (stop_video t) s = same_settings t s"
  "same_settings (show_image p t) s = same_settings t s"
  "same_settings (show_placeholder_video p t) s = same_settings t s"
  "same_settings (play_video p t) s = same_settings t s"
  "same_settings (play_image_sfx e t) s = same_settings t s"
  "same_settings (cancel_timers t) s = same_settings t s"
  by (simp_all add: same_settings_def)

lemma play_current_same:
  assumes pn: "\<And>a b. pn a = Some b \<Longrightarrow> same_settings a b"
    and r: "play_current pn e s = Some s'"
  shows "same_settings s s'"
proof -
  have sc: "same_settings t t'" if "start_countdown pn sec t = Some t'" for sec t t'
    using start_countdown_same[of pn sec t t'] pn that by blast
  have vl: "same_settings t t'" if "start_countdown_for_video_loop pn e p t = Some t'" for p t t'
    using start_countdown_for_video_loop_same[of pn e p t t'] pn that by blast
  show ?thesis
    using r by (auto simp: play_current_def Let_def split: option.splits if_splits dest!: sc vl)
qed

lemma play_next_body_same:
  assumes pn: "\<And>a b. pn a = Some b \<Longrightarrow> same_settings a b"
    and r: "play_next_body pn e s = Some s'"
  shows "same_settings s s'"
proof -
  have pc: "same_settings t t'" if "play_current pn e t = Some t'" for t t'
    using play_current_same[of pn e t t'] pn that by blast
  show ?thesis
    using r
    by (auto simp: play_next_body_def same_settings_def split: if_splits option.splits dest!: pc)
qed

lemma play_next_same: "play_next k e s = Some s' \<Longrightarrow> same_settings s s'"
proof (induction k arbitrary: s s')
  case 0
  then show ?case by simp
next
  case (Suc k)
  have "play_next_body (play_next k e) e s = Some s'" using Suc.prems by simp
  then show ?case using play_next_body_same[of "play_next k e" e s s'] Suc.IH by blast
qed

lemma play_current_next_same:
  "play_current (play_next k e) e s = Some s' \<Longrightarrow> same_settings s s'"
  using play_current_same[of "play_next k e" e s s'] play_next_same by blast

lemma play_prev_same: "play_prev k e s = Some s' \<Longrightarrow> same_settings s s'"
  by (auto simp: play_prev_def same_settings_def split: if_splits option.splits
      dest!: play_current_next_same)

lemma on_list_double_same: "on_list_double k e sel s = Some s' \<Longrightarrow> same_settings s s'"
  by (auto simp: on_list_double_def same_settings_def split: list.splits
      dest!: play_current_next_same)

lemma tick_countdown_next_same:
  "tick_countdown (play_next k e) s = Some s' \<Longrightarrow> same_settings s s'"
  using tick_countdown_same[of "play_next k e" s s'] play_next_same by blast

lemma fire_cases:
  assumes "fire k e i s = Some s'"
  shows "s' = s
         \<or> tick_countdown (play_next k e) (s\<lparr>pending := filter (\<lambda>t. fst t \<noteq> i) (pending s)\<rparr>)
             = Some s'
         \<or> play_next (Suc k) e (s\<lparr>pending := filter (\<lambda>t. fst t \<noteq> i) (pending s)\<rparr>) = Some s'"
proof (cases "find (\<lambda>t. fst t = i) (pending s)")
  case None
  then show ?thesis using assms by (simp add: fire_def)
next
  case (Some t)
  obtain a b cb where t: "t = (a, b, cb)" by (cases t)
  show ?thesis
  proof (cases cb)
    case Tick_countdown
    then show ?thesis using assms Some t by (simp add: fire_def del: play_next.simps)
  next
    case Play_next
    then show ?thesis using assms Some t by (simp add: fire_def del: play_next.simps)
  qed
qed

lemma fire_same:
  assumes "fire k e i s = Some s'"
  shows "same_settings s s'"
proof -
  let ?m = "s\<lparr>pending := filter (\<lambda>t. fst t \<noteq> i) (pending s)\<rparr>"
  have m: "same_settings s ?m" by (simp add: same_settings_def)
  from fire_cases[OF assms] consider "s' = s"
    | "tick_countdown (play_next k e) ?m = Some s'"
    | "play_next (Suc k) e ?m = Some s'" by blast
  then show ?thesis
  proof cases
    case 1
    then show ?thesis by simp
  next
    case 2
    from tick_countdown_next_same[OF this] m show ?thesis by (rule same_settings_trans[rotated])
  next
    case 3
    from play_next_same[OF this] m show ?thesis by (rule same_settings_trans[rotated])
  qed
qed

lemma start_flags:
  assumes "start k e s = Some s'"
  shows "(filtered_files s = [] \<and> s' = emit Warn_no_files s)
         \<or> (is_running s' \<and> \<not> is_paused s' \<and> filtered_files s' = filtered_files s
            \<and> files s' = files s \<and> interval_seconds s' = interval_seconds s)"
proof (cases "filtered_files s = []")
  case True
  then show ?thesis using assms by (simp add: start_def)
next
  case False
  then obtain m where m: "play_current (play_next k e) e m = Some s'"
    and f: "is_running m" "\<not> is_paused m" "filtered_files m = filtered_files s"
      "files m = files s" "interval_seconds m = interval_seconds s"
    using assms by (auto simp: start_def Let_def split: option.splits if_splits)
  from play_current_next_same[OF m] f show ?thesis by (simp add: same_settings_def)
qed

lemma stop_flags [simp]: "is_running (stop s) = False" "is_paused (stop s) = False"
  by (simp_all add: stop_def)

lemma toggle_pause_running [simp]: "is_running (toggle_pause e s) = is_running s"
  by (simp add: toggle_pause_def after_def Let_def split: option.splits prod.splits)

lemma toggle_pause_not_running: "\<not> is_running s \<Longrightarrow> toggle_pause e s = s"
  by (simp add: toggle_pause_def)

lemma apply_search_filter_frame [simp]:
  "is_running (apply_search_filter e s) = is_running s"
  "is_paused (apply_search_filter e s) = is_paused s"
  "current_index (apply_search_filter e s) = current_index s"
  "files (apply_search_filter e s) = files s"
  "playlists (apply_search_filter e s) = playlists s"
  "playlists_file (apply_search_filter e s) = playlists_file s"
  "interval_seconds (apply_search_filter e s) = interval_seconds s"
  "after_id (apply_search_filter e s) = after_id s"
  "pending (apply_search_filter e s) = pending s"
  "next_id (apply_search_filter e s) = next_id s"
  "countdown_seconds_left (apply_search_filter e s) = countdown_seconds_left s"
  "progress_maximum (apply_search_filter e s) = progress_maximum s"
  "search_var (apply_search_filter e s) = search_var s"
  by (simp_all add: apply_search_filter_def)

lemma refresh_playlist_combo_frame [simp]:
  "is_running (refresh_playlist_combo s) = is_running s"
  "is_paused (refresh_playlist_combo s) = is_paused s"
  "interval_seconds (refresh_playlist_combo s) = interval_seconds s"
  "after_id (refresh_playlist_combo s) = after_id s"
  "pending (refresh_playlist_combo s) = pending s"
  "next_id (refresh_playlist_combo s) = next_id s"
  "countdown_seconds_left (refresh_playlist_combo s) = countdown_seconds_left s"
  "progress_maximum (refresh_playlist_combo s) = progress_maximum s"
  "current_index (refresh_playlist_combo s) = current_index s"
  "filtered_files (refresh_playlist_combo s) = filtered_files s"
  by (simp_all add: refresh_playlist_combo_def Let_def)

lemma settings_actions_frame [simp]:
  "is_running (select_folder e d s) = is_running s"
  "is_paused (select_folder e d s) = is_paused s"
  "interval_seconds (select_folder e d s) = interval_seconds s"
  "after_id (select_folder e d s) = after_id s"
  "pending (select_folder e d s) = pending s"
  "next_id (select_folder e d s) = next_id s"
  "countdown_seconds_left (select_folder e d s) = countdown_seconds_left s"
  "progress_maximum (select_folder e d s) = progress_maximum s"
  "is_running (apply_selected_playlist e s) = is_running s"
  "is_paused (apply_selected_playlist e s) = is_paused s"
  "interval_seconds (apply_selected_playlist e s) = interval_seconds s"
  "after_id (apply_selected_playlist e s) = after_id s"
  "pending (apply_selected_playlist e s) = pending s"
  "next_id (apply_selected_playlist e s) = next_id s"
  "countdown_seconds_left (apply_selected_playlist e s) = countdown_seconds_left s"
  "progress_maximum (apply_selected_playlist e s) = progress_maximum s"
  "is_running (playlist_new n s) = is_running s"
  "is_paused (playlist_new n s) = is_paused s"
  "interval_seconds (playlist_new n s) = interval_seconds s"
  "after_id (playlist_new n s) = after_id s"
  "pending (playlist_new n s) = pending s"
  "next_id (playlist_new n s) = next_id s"
  "countdown_seconds_left (playlist_new n s) = countdown_seconds_left s"
  "progress_maximum (playlist_new n s) = progress_maximum s"
  by (simp_all add: select_folder_def load_files_def apply_selected_playlist_def
      playlist_new_def save_playlists_def Let_def split: option.splits)

lemma step_paused_running:
  assumes "step k e a s = Some s'" and "is_paused s \<longrightarrow> is_running s"
  shows "is_paused s' \<longrightarrow> is_running s'"
proof (cases a)
  case Start
  then show ?thesis using assms start_flags[of k e s s'] by (auto simp: step_def)
next
  case Next
  then show ?thesis using assms play_next_same[of "Suc k" e s s']
    by (simp add: step_def same_settings_def)
next
  case Prev
  then show ?thesis using assms play_prev_same[of k e s s']
    by (simp add: step_def same_settings_def)
next
  case (Fire i)
  then show ?thesis using assms fire_same[of k e i s s']
    by (simp add: step_def same_settings_def)
next
  case (List_double sel)
  then show ?thesis using assms on_list_double_same[of k e sel s s']
    by (simp add: step_def same_settings_def)
next
  case Toggle_pause
  then show ?thesis using assms by (cases "is_running s") (auto simp: step_def toggle_pause_not_running)
qed (use assms in \<open>auto simp: step_def\<close>)

lemma run_paused_running:
  "run k e as s = Some s' \<Longrightarrow> (is_paused s \<longrightarrow> is_running s) \<Longrightarrow> (is_paused s' \<longrightarrow> is_running s')"
proof (induction as arbitrary: s)
  case Nil
  then show ?case by simp
next
  case (Cons a as)
  then obtain m where m: "step k e a s = Some m" and r: "run k e as m = Some s'"
    by (auto split: option.splits)
  from step_paused_running[OF m] Cons.prems(2) have "is_paused m \<longrightarrow> is_running m" by blast
  from Cons.IH[OF r this] show ?case .
qed

subsection \<open>Playing an item without a nested call\<close>

lemma preds_display [simp]:
  "timers_ok (emit ev t) = timers_ok t"
  "timers_ok (stop_video t) = timers_ok t"
  "timers_ok (show_image p t) = timers_ok t"
  "timers_ok (show_placeholder_video p t) = timers_ok t"
  "timers_ok (play_video p t) = timers_ok t"
  "timers_ok (play_image_sfx e t) = timers_ok t"
  "countdown_ok (emit ev t) = countdown_ok t"
  "countdown_ok (stop_video t) = countdown_ok t"
  "countdown_ok (show_image p t) = countdown_ok t"
  "countdown_ok (show_placeholder_video p t) = countdown_ok t"
  "countdown_ok (play_video p t) = countdown_ok t"
  "countdown_ok (play_image_sfx e t) = countdown_ok t"
  by (simp_all add: timers_ok_def countdown_ok_def cong: option.case_cong list.case_cong)

lemma keeps_display [simp]:
  "keeps s (emit ev t) = keeps s t"
  "keeps s (stop_video t) = keeps s t"
  "keeps s (show_image p t) = keeps s t"
  "keeps s (show_placeholder_video p t) = keeps s t"
  "keeps s (play_video p t) = keeps s t"
  "keeps s (play_image_sfx e t) = keeps s t"
  by (simp_all add: keeps_def)

lemma timers_ok_cancel: "timers_ok s \<Longrightarrow> timers_ok (cancel_timers s)"
  by (simp add: timers_ok_def)

lemma keeps_cancel: "keeps s (cancel_timers s)"
  by (simp add: keeps_def timers_ok_cancel countdown_ok_cancel)

lemma keeps_refl [simp]: "keeps s s"
  by (simp add: keeps_def)

lemma keeps_trans: "keeps s t \<Longrightarrow> keeps t u \<Longrightarrow> keeps s u"
  by (simp add: keeps_def same_settings_def)

lemma keepsI:
  assumes "current_index t = current_index s" and "same_settings s t"
    and "timers_ok s \<Longrightarrow> timers_ok t"
    and "countdown_ok s \<Longrightarrow> 0 \<le> interval_seconds s \<Longrightarrow> countdown_ok t"
  shows "keeps s t"
  using assms by (simp add: keeps_def)

lemma start_countdown_settles:
  assumes a: "after_id t = None"
    and c: "0 < sec \<or> \<not> is_running t \<or> is_paused t"
    and i: "0 \<le> interval_seconds t \<longrightarrow> 0 \<le> sec"
  shows "\<exists>s'. start_countdown pn sec t = Some s' \<and> keeps t s' \<and> trace s' = trace t
              \<and> draws s' = draws t"
proof (cases "is_running t \<and> \<not> is_paused t")
  case True
  then have pos: "0 < sec" using c by auto
  let ?m = "t\<lparr>countdown_seconds_left := sec, progress_maximum := sec, progress_value := 0\<rparr>"
  let ?r = "?m\<lparr>timer_label := Some (countdown_seconds_left ?m),
             progress_value := progress_value ?m + 1,
             countdown_seconds_left := countdown_seconds_left ?m - 1,
             pending := pending ?m @ [(next_id ?m, 1000, Tick_countdown)],
             next_id := Suc (next_id ?m),
             after_id := Some (next_id ?m)\<rparr>"
  have m: "is_running ?m" "\<not> is_paused ?m" "0 < countdown_seconds_left ?m"
    using True pos by simp_all
  have "start_countdown pn sec t = tick_countdown pn ?m"
    using a by (simp add: start_countdown_def)
  also note tick_countdown_armed[OF m, of pn]
  finally have e: "start_countdown pn sec t = Some ?r" .
  have p: "timers_ok t \<Longrightarrow> pending t = []" using a by (simp add: timers_ok_def)
  have k: "keeps t ?r"
  proof (rule keepsI)
    show "current_index ?r = current_index t" by simp
    show "same_settings t ?r" by (simp add: same_settings_def)
    show "timers_ok ?r" if "timers_ok t" using p[OF that] by (simp add: timers_ok_def)
    show "countdown_ok ?r" using pos by (simp add: countdown_ok_def)
  qed
  show ?thesis using e k by simp
next
  case False
  let ?m = "t\<lparr>countdown_seconds_left := sec, progress_maximum := sec, progress_value := 0\<rparr>"
  have "start_countdown pn sec t = tick_countdown pn ?m"
    using a by (simp add: start_countdown_def)
  also have "\<dots> = Some ?m" using False by (simp add: tick_countdown_idle)
  finally have e: "start_countdown pn sec t = Some ?m" .
  have k: "keeps t ?m"
  proof (rule keepsI)
    show "current_index ?m = current_index t" by simp
    show "same_settings t ?m" by (simp add: same_settings_def)
    show "timers_ok ?m" if "timers_ok t"
      using that by (simp add: timers_ok_def cong: option.case_cong list.case_cong)
    show "countdown_ok ?m" if "0 \<le> interval_seconds t"
      using that i by (simp add: countdown_ok_def)
  qed
  show ?thesis using e k by simp
qed

lemma start_countdown_for_video_loop_settles:
  assumes a: "after_id t = None"
    and c: "0 < interval_seconds t \<or> \<not> is_running t \<or> is_paused t"
  shows "\<exists>s'. start_countdown_for_video_loop pn e path t = Some s' \<and> keeps t s'
              \<and> trace s' = trace t \<and> draws s' = draws t"
proof -
  define l where "l = (case video_length_s e path of
               None \<Rightarrow> interval_seconds t
             | Some l \<Rightarrow> if l = 0 \<or> l \<le> 0 then interval_seconds t else l)"
  have l: "l = interval_seconds t \<or> 0 < l"
    by (auto simp: l_def split: option.splits)
  have eq: "start_countdown_for_video_loop pn e path t = start_countdown pn l t"
    using a by (simp add: start_countdown_for_video_loop_def start_countdown_def l_def Let_def)
  have c': "0 < l \<or> \<not> is_running t \<or> is_paused t" using c l by auto
  have i': "0 \<le> interval_seconds t \<longrightarrow> 0 \<le> l" using l by auto
  show ?thesis unfolding eq by (rule start_countdown_settles[OF a c' i'])
qed
lemma keeps_fields:
  assumes "keeps s t"
  shows "current_index t = current_index s" "filtered_files t = filtered_files s"
    "is_running t = is_running s" "is_paused t = is_paused s"
    "interval_seconds t = interval_seconds s" "same_settings s t"
  using assms by (simp_all add: keeps_def same_settings_def)

text \<open>Playing an item shows it and then returns, starts the countdown of the interval,
  or starts the countdown of a looped video.\<close>

lemma play_current_shape:
  "\<exists>t. keeps s t \<and> after_id t = None
       \<and> (play_current pn e s = Some t
          \<or> (is_running t \<and> \<not> is_paused t
              \<and> play_current pn e s = start_countdown pn (interval_seconds t) t)
          \<or> (\<exists>path. play_current pn e s = start_countdown_for_video_loop pn e path t))"
proof -
  define c where "c = cancel_timers s"
  have kc: "keeps s c" and ac: "after_id c = None"
    by (simp_all add: c_def keeps_cancel)
  show ?thesis
  proof (cases "current_index c")
    case None
    then have "play_current pn e s = Some c"
      by (simp add: play_current_def c_def)
    then show ?thesis using kc ac by blast
  next
    case (Some idx)
    show ?thesis
    proof (cases "idx < 0 \<or> idx \<ge> int (length (filtered_files c))")
      case True
      then have "play_current pn e s = Some c"
        using Some by (simp add: play_current_def c_def)
      then show ?thesis using kc ac by blast
    next
      case False
      define path where "path = filtered_files c ! nat idx"
      define ext where "ext = lower e (splitext_ext e path)"
      have unf: "play_current pn e s =
        (if ext \<in> set IMAGE_EXTS then
           (let s1 = play_image_sfx e (show_image path (stop_video c))
            in if is_running s1 \<and> \<not> is_paused s1
               then start_countdown pn (interval_seconds s1) s1 else Some s1)
         else if ext \<in> set VIDEO_EXTS then
           (if \<not> VLC_AVAILABLE e \<or> \<not> vlc_player c then
              (let s1 = show_placeholder_video path (stop_video c)
               in if is_running s1 \<and> \<not> is_paused s1
                  then start_countdown pn (interval_seconds s1) s1 else Some s1)
            else
              (let s1 = play_video path c
               in if loop_videos s1 then start_countdown_for_video_loop pn e path s1
                  else if is_running s1 \<and> \<not> is_paused s1
                  then start_countdown pn (interval_seconds s1) s1 else Some s1))
         else Some (emit (Unknown_file_type path) c))"
        using Some False
        by (simp add: play_current_def c_def[symmetric] path_def ext_def Let_def
            del: play_image_sfx_frame)
      have shape: "\<exists>t. keeps s t \<and> after_id t = None
         \<and> ((if is_running u \<and> \<not> is_paused u
               then start_countdown pn (interval_seconds u) u else Some u) = Some t
          \<or> (is_running t \<and> \<not> is_paused t
              \<and> (if is_running u \<and> \<not> is_paused u
               then start_countdown pn (interval_seconds u) u else Some u)
                  = start_countdown pn (interval_seconds t) t)
          \<or> (\<exists>path. (if is_running u \<and> \<not> is_paused u
               then start_countdown pn (interval_seconds u) u else Some u)
                  = start_countdown_for_video_loop pn e path t))"
        if "keeps s u" "after_id u = None" for u
        using that by (cases "is_running u \<and> \<not> is_paused u") auto
      show ?thesis
      proof (cases "ext \<in> set IMAGE_EXTS")
        case True
        let ?u = "play_image_sfx e (show_image path (stop_video c))"
        have "keeps s ?u" "after_id ?u = None" using kc ac by simp_all
        from shape[OF this] show ?thesis using True by (simp add: unf Let_def)
      next
        case ni: False
        show ?thesis
        proof (cases "ext \<in> set VIDEO_EXTS")
          case False
          let ?u = "emit (Unknown_file_type path) c"
          have "keeps s ?u" "after_id ?u = None" using kc ac by simp_all
          moreover have "play_current pn e s = Some ?u" using ni False by (simp add: unf)
          ultimately show ?thesis by blast
        next
          case True
          show ?thesis
          proof (cases "\<not> VLC_AVAILABLE e \<or> \<not> vlc_player c")
            case nv: True
            let ?u = "show_placeholder_video path (stop_video c)"
            have "keeps s ?u" "after_id ?u = None" using kc ac by simp_all
            from shape[OF this] show ?thesis using ni True nv by (simp add: unf Let_def)
          next
            case v: False
            let ?u = "play_video path c"
            have u: "keeps s ?u" "after_id ?u = None" using kc ac by simp_all
            show ?thesis
            proof (cases "loop_videos c")
              case True
              then have "play_current pn e s = start_countdown_for_video_loop pn e path ?u"
                using ni \<open>ext \<in> set VIDEO_EXTS\<close> v by (simp add: unf Let_def)
              then show ?thesis using u by blast
            next
              case False
              from shape[OF u] show ?thesis
                using ni \<open>ext \<in> set VIDEO_EXTS\<close> v False by (simp add: unf Let_def)
            qed
          qed
        qed
      qed
    qed
  qed
qed

lemma settled_keeps: "keeps s t \<Longrightarrow> settled s \<Longrightarrow> settled t"
  by (simp add: settled_def keeps_def same_settings_def)

lemma play_current_settles:
  assumes "settled s"
  shows "\<exists>s'. play_current pn e s = Some s' \<and> keeps s s'"
proof -
  obtain t where k: "keeps s t" and a: "after_id t = None"
    and sh: "play_current pn e s = Some t
          \<or> (is_running t \<and> \<not> is_paused t
              \<and> play_current pn e s = start_countdown pn (interval_seconds t) t)
          \<or> (\<exists>path. play_current pn e s = start_countdown_for_video_loop pn e path t)"
    using play_current_shape[of s pn e] by blast
  have st: "0 < interval_seconds t \<or> \<not> is_running t \<or> is_paused t"
    using settled_keeps[OF k assms] by (simp add: settled_def)
  from sh consider "play_current pn e s = Some t"
    | "play_current pn e s = start_countdown pn (interval_seconds t) t"
    | path where "play_current pn e s = start_countdown_for_video_loop pn e path t"
    by blast
  then show ?thesis
  proof cases
    case 1
    then show ?thesis using k by blast
  next
    case 2
    obtain s' where "start_countdown pn (interval_seconds t) t = Some s'" "keeps t s'"
      using start_countdown_settles[OF a st, of pn] by auto
    then show ?thesis using 2 keeps_trans[OF k] by auto
  next
    case 3
    obtain s' where "start_countdown_for_video_loop pn e path t = Some s'" "keeps t s'"
      using start_countdown_for_video_loop_settles[OF a st, of pn e path] by auto
    then show ?thesis using 3 keeps_trans[OF k] by auto
  qed
qed

section \<open>The player of MemePlayer.py: the index and the flags\<close>

lemma cancel_timers0_frame [simp]:
  "files (cancel_timers0 s) = files s"
  "current_index (cancel_timers0 s) = current_index s"
  "is_running (cancel_timers0 s) = is_running s"
  "is_paused (cancel_timers0 s) = is_paused s"
  "interval_seconds (cancel_timers0 s) = interval_seconds s"
  "vlc_player (cancel_timers0 s) = vlc_player s"
  "next_id (cancel_timers0 s) = next_id s"
  "after_id (cancel_timers0 s) = None"
  by (simp_all add: cancel_timers0_def after_cancel_def split: option.split)

lemma cancel_timers0_pending:
  "pending (cancel_timers0 s) =
     (case after_id s of None \<Rightarrow> pending s | Some i \<Rightarrow> filter (\<lambda>t. fst t \<noteq> i) (pending s))"
  by (simp add: cancel_timers0_def after_cancel_def split: option.split)

lemma play_current0_frame [simp]:
  "current_index (play_current0 e s) = current_index s"
  "is_running (play_current0 e s) = is_running s"
  "is_paused (play_current0 e s) = is_paused s"
  "files (play_current0 e s) = files s"
  by (simp_all add: play_current0_def after_def Let_def split: option.split)

lemma play_next0_frame [simp]:
  "is_running (play_next0 e s) = is_running s"
  "is_paused (play_next0 e s) = is_paused s"
  "files (play_next0 e s) = files s"
  "is_running (play_prev0 e s) = is_running s"
  "is_paused (play_prev0 e s) = is_paused s"
  "files (play_prev0 e s) = files s"
  "is_running (on_list_double0 e sel s) = is_running s"
  "is_paused (on_list_double0 e sel s) = is_paused s"
  by (simp_all add: play_next0_def play_prev0_def on_list_double0_def
      split: option.split list.split)

lemma play_next0_sequential:
  assumes "files s \<noteq> []" and "\<not> shuffle s"
  shows "(let n = int (length (files s));
              nxt = (case current_index s of None \<Rightarrow> 0 | Some i \<Rightarrow> (i + 1) mod n);
              prv = (case current_index s of None \<Rightarrow> 0 | Some i \<Rightarrow> (i - 1 + n) mod n)
          in play_next0 e s = play_current0 e (s\<lparr>current_index := Some nxt\<rparr>)
           \<and> play_prev0 e s = play_current0 e (s\<lparr>current_index := Some prv\<rparr>)
           \<and> current_index (play_next0 e s) = Some nxt
           \<and> current_index (play_prev0 e s) = Some prv
           \<and> files (play_next0 e s) = files s \<and> files (play_prev0 e s) = files s
           \<and> 0 \<le> nxt \<and> nxt < n \<and> 0 \<le> prv \<and> prv < n)"
  using assms
  by (simp add: Let_def play_next0_def play_prev0_def split: option.splits)

lemma play_next0_shuffle:
  assumes "files s \<noteq> []" and "shuffle s"
  shows "(let n = length (files s); r = randrange e (draws s) n
          in play_prev0 e s = play_next0 e s
           \<and> play_next0 e s
               = play_current0 e (s\<lparr>current_index := Some (int r), draws := Suc (draws s)\<rparr>)
           \<and> current_index (play_next0 e s) = Some (int r)
           \<and> current_index (play_prev0 e s) = Some (int r)
           \<and> files (play_next0 e s) = files s
           \<and> r < n
           \<and> (\<forall>v<n. rng e (draws s) n = v \<longrightarrow> r = v))"
  using assms
  by (simp add: Let_def play_next0_def play_prev0_def randrange_def)

lemma start0_flags:
  "is_paused s \<longrightarrow> is_running s \<Longrightarrow> is_paused (start0 e s) \<longrightarrow> is_running (start0 e s)"
  by (simp add: start0_def Let_def split: option.split)

lemma start0_running:
  assumes "folder s \<noteq> None" and "folder s \<noteq> Some []" and "files s \<noteq> []"
    and "vlc_instance s \<or> \<not> VLC_AVAILABLE e \<or> vlc_starts e"
  shows "is_running (start0 e s) \<and> \<not> is_paused (start0 e s)"
  using assms by (auto simp: start0_def Let_def split: option.split)

lemma stop0_flags [simp]: "is_running (stop0 s) = False" "is_paused (stop0 s) = False"
  by (simp_all add: stop0_def)

lemma toggle_pause0_running [simp]: "is_running (toggle_pause0 e s) = is_running s"
  by (simp add: toggle_pause0_def after_def Let_def split: option.split)

lemma toggle_pause0_not_running: "\<not> is_running s \<Longrightarrow> toggle_pause0 e s = s"
  by (simp add: toggle_pause0_def)

lemma select_folder0_flags [simp]:
  "is_running (select_folder0 e d s) = is_running s"
  "is_paused (select_folder0 e d s) = is_paused s"
  by (simp_all add: select_folder0_def Let_def)

lemma fire0_flags [simp]:
  "is_running (fire0 e i s) = is_running s"
  "is_paused (fire0 e i s) = is_paused s"
  by (simp_all add: fire0_def Let_def split: option.split prod.split callback.split)

lemma step0_paused_running:
  assumes "is_paused s \<longrightarrow> is_running s"
  shows "is_paused (step0 e a s) \<longrightarrow> is_running (step0 e a s)"
proof (cases a)
  case Start
  then show ?thesis using start0_flags[OF assms] by (simp add: step0_def)
next
  case Toggle_pause
  then show ?thesis using assms
    by (cases "is_running s") (simp_all add: step0_def toggle_pause0_not_running)
qed (use assms in \<open>simp_all add: step0_def\<close>)

lemma run0_paused_running:
  "is_paused s \<longrightarrow> is_running s \<Longrightarrow> is_paused (run0 e as s) \<longrightarrow> is_running (run0 e as s)"
proof (induction as arbitrary: s)
  case Nil
  then show ?case by simp
next
  case (Cons a as)
  from Cons.IH[OF step0_paused_running[OF Cons.prems]] show ?case by simp
qed

lemma toggle_pause0_rearms:
  assumes "is_running s" and "\<not> is_paused s"
  shows "(let p = toggle_pause0 e s; r = toggle_pause0 e (p\<lparr>interval_seconds := v\<rparr>)
          in is_running p \<and> is_paused p \<and> after_id p = None
           \<and> pending p = (case after_id s of None \<Rightarrow> pending s
                           | Some i \<Rightarrow> filter (\<lambda>t. fst t \<noteq> i) (pending s))
           \<and> is_running r \<and> \<not> is_paused r
           \<and> pending r = pending p @ [(next_id p, v * 1000, Play_next)]
           \<and> after_id r = Some (next_id p)
           \<and> fire0 e (next_id p) (r\<lparr>pending := [(next_id p, v * 1000, Play_next)]\<rparr>)
               = play_next0 e (r\<lparr>pending := []\<rparr>))"
proof -
  define c where "c = cancel_timers0 (s\<lparr>is_paused := True\<rparr>)"
  define p where "p = toggle_pause0 e s"
  define r where "r = toggle_pause0 e (p\<lparr>interval_seconds := v\<rparr>)"
  have p: "p = (if vlc_player c \<and> VLC_AVAILABLE e then emit Pause_video c else c)"
    using assms by (simp add: p_def toggle_pause0_def c_def Let_def)
  have pf: "is_running p" "is_paused p" "after_id p = None" "pending p = pending c"
    "next_id p = next_id c"
    using assms by (simp_all add: p c_def)
  have pc: "pending c = (case after_id s of None \<Rightarrow> pending s
                           | Some i \<Rightarrow> filter (\<lambda>t. fst t \<noteq> i) (pending s))"
    by (simp add: c_def cancel_timers0_pending split: option.splits)
  define m where "m = p\<lparr>interval_seconds := v, is_paused := False,
                         pending := pending p @ [(next_id p, v * 1000, Play_next)],
                         next_id := Suc (next_id p), after_id := Some (next_id p)\<rparr>"
  have r: "r = (if vlc_player m \<and> VLC_AVAILABLE e then emit Resume_video m else m)"
    using pf(1,2,3) by (simp add: r_def m_def toggle_pause0_def after_def Let_def)
  have rf: "is_running r" "\<not> is_paused r"
    "pending r = pending p @ [(next_id p, v * 1000, Play_next)]" "after_id r = Some (next_id p)"
    using pf(1) by (simp_all add: r m_def)
  have fr: "fire0 e (next_id p) (r\<lparr>pending := [(next_id p, v * 1000, Play_next)]\<rparr>)
               = play_next0 e (r\<lparr>pending := []\<rparr>)"
    by (simp add: fire0_def)
  show ?thesis
    unfolding Let_def p_def[symmetric] r_def[symmetric]
    using pf pc rf fr by simp
qed

section \<open>Selection of the next and the previous item\<close>

lemma play_next_settles:
  assumes "settled s"
  shows "\<exists>s'. play_current (play_next k e) e (s\<lparr>current_index := x\<rparr>) = Some s'
              \<and> current_index s' = x \<and> same_settings s s'"
proof -
  have "settled (s\<lparr>current_index := x\<rparr>)" using assms by (simp add: settled_def)
  from play_current_settles[OF this, of "play_next k e" e]
  obtain s' where r: "play_current (play_next k e) e (s\<lparr>current_index := x\<rparr>) = Some s'"
    and k: "keeps (s\<lparr>current_index := x\<rparr>) s'" by blast
  have "current_index s' = x" "same_settings s s'"
    using k by (simp_all add: keeps_def same_settings_def)
  then show ?thesis using r by blast
qed

lemma play_next_shuffle_settles:
  assumes "settled s"
  shows "\<exists>s'. play_current (play_next k e) e (s\<lparr>current_index := x, draws := d\<rparr>) = Some s'
              \<and> current_index s' = x \<and> same_settings s s'"
proof -
  have "settled (s\<lparr>current_index := x, draws := d\<rparr>)" using assms by (simp add: settled_def)
  from play_current_settles[OF this, of "play_next k e" e]
  obtain s' where r: "play_current (play_next k e) e (s\<lparr>current_index := x, draws := d\<rparr>) = Some s'"
    and k: "keeps (s\<lparr>current_index := x, draws := d\<rparr>) s'" by blast
  have "current_index s' = x" "same_settings s s'"
    using k by (simp_all add: keeps_def same_settings_def)
  then show ?thesis using r by blast
qed

lemma play_next_sequential:
  assumes "filtered_files s \<noteq> []" and "\<not> shuffle s"
  shows "(let n = int (length (filtered_files s));
              nxt = (case current_index s of None \<Rightarrow> 0 | Some i \<Rightarrow> (i + 1) mod n);
              prv = (case current_index s of None \<Rightarrow> 0 | Some i \<Rightarrow> (i - 1 + n) mod n)
          in play_next (Suc k) e s
               = play_current (play_next k e) e (s\<lparr>current_index := Some nxt\<rparr>)
           \<and> play_prev k e s = play_current (play_next k e) e (s\<lparr>current_index := Some prv\<rparr>)
           \<and> 0 \<le> nxt \<and> nxt < n \<and> 0 \<le> prv \<and> prv < n
           \<and> (settled s \<longrightarrow>
                (\<exists>s'. play_next (Suc k) e s = Some s' \<and> current_index s' = Some nxt
                      \<and> filtered_files s' = filtered_files s)
              \<and> (\<exists>s'. play_prev k e s = Some s' \<and> current_index s' = Some prv
                      \<and> filtered_files s' = filtered_files s)))"
proof -
  define n where "n = int (length (filtered_files s))"
  define nxt where "nxt = (case current_index s of None \<Rightarrow> 0 | Some i \<Rightarrow> (i + 1) mod n)"
  define prv where "prv = (case current_index s of None \<Rightarrow> 0 | Some i \<Rightarrow> (i - 1 + n) mod n)"
  have n: "0 < n" using assms(1) by (simp add: n_def)
  have a: "play_next (Suc k) e s
             = play_current (play_next k e) e (s\<lparr>current_index := Some nxt\<rparr>)"
    using assms by (simp add: play_next_body_def nxt_def n_def split: option.splits)
  have b: "play_prev k e s = play_current (play_next k e) e (s\<lparr>current_index := Some prv\<rparr>)"
    using assms by (simp add: play_prev_def prv_def n_def split: option.splits)
  have c: "0 \<le> nxt \<and> nxt < n \<and> 0 \<le> prv \<and> prv < n"
    using n by (simp add: nxt_def prv_def split: option.splits)
  have d: "(\<exists>s'. play_next (Suc k) e s = Some s' \<and> current_index s' = Some nxt
                      \<and> filtered_files s' = filtered_files s)
         \<and> (\<exists>s'. play_prev k e s = Some s' \<and> current_index s' = Some prv
                      \<and> filtered_files s' = filtered_files s)" if st: "settled s"
  proof -
    obtain s1 where "play_current (play_next k e) e (s\<lparr>current_index := Some nxt\<rparr>) = Some s1"
      "current_index s1 = Some nxt" "same_settings s s1"
      using play_next_settles[OF st, where k=k and e=e and x="Some nxt"] by blast
    moreover obtain s2 where "play_current (play_next k e) e (s\<lparr>current_index := Some prv\<rparr>) = Some s2"
      "current_index s2 = Some prv" "same_settings s s2"
      using play_next_settles[OF st, where k=k and e=e and x="Some prv"] by blast
    ultimately show ?thesis unfolding a b by (simp add: same_settings_def)
  qed
  show ?thesis
    unfolding Let_def n_def[symmetric] nxt_def[symmetric] prv_def[symmetric]
    using a b c d by blast
qed

text \<open>
  Claim C1. In sequential mode on a catalog that is not empty, \<open>play_next\<close> sets the index
  to \<open>(current + 1) mod length\<close> and \<open>play_prev\<close> to \<open>(current - 1 + length) mod length\<close>,
  both to 0 when the index is absent, and then play the item at that index; the new index
  is an index into the catalog. In MemePlayer_full.py the catalog is \<open>filtered_files\<close>;
  when no call of \<open>play_next\<close> is nested in the playing (the interval is positive, or the
  player is stopped or paused), both calls return and the index they leave is that one.
  In MemePlayer.py the catalog is \<open>files\<close>, both calls return, and the index they leave
  is that one.
\<close>

theorem sequential_next_prev:
  assumes "\<not> shuffle s"
  shows "(filtered_files s \<noteq> [] \<longrightarrow>
           (let n = int (length (filtered_files s));
                nxt = (case current_index s of None \<Rightarrow> 0 | Some i \<Rightarrow> (i + 1) mod n);
                prv = (case current_index s of None \<Rightarrow> 0 | Some i \<Rightarrow> (i - 1 + n) mod n)
            in play_next (Suc k) e s
                 = play_current (play_next k e) e (s\<lparr>current_index := Some nxt\<rparr>)
             \<and> play_prev k e s = play_current (play_next k e) e (s\<lparr>current_index := Some prv\<rparr>)
             \<and> 0 \<le> nxt \<and> nxt < n \<and> 0 \<le> prv \<and> prv < n
             \<and> (settled s \<longrightarrow>
                  (\<exists>s'. play_next (Suc k) e s = Some s' \<and> current_index s' = Some nxt
                        \<and> filtered_files s' = filtered_files s)
                \<and> (\<exists>s'. play_prev k e s = Some s' \<and> current_index s' = Some prv
                        \<and> filtered_files s' = filtered_files s))))
       \<and> (files s \<noteq> [] \<longrightarrow>
           (let n = int (length (files s));
                nxt = (case current_index s of None \<Rightarrow> 0 | Some i \<Rightarrow> (i + 1) mod n);
                prv = (case current_index s of None \<Rightarrow> 0 | Some i \<Rightarrow> (i - 1 + n) mod n)
            in play_next0 e s = play_current0 e (s\<lparr>current_index := Some nxt\<rparr>)
             \<and> play_prev0 e s = play_current0 e (s\<lparr>current_index := Some prv\<rparr>)
             \<and> current_index (play_next0 e s) = Some nxt
             \<and> current_index (play_prev0 e s) = Some prv
             \<and> files (play_next0 e s) = files s \<and> files (play_prev0 e s) = files s
             \<and> 0 \<le> nxt \<and> nxt < n \<and> 0 \<le> prv \<and> prv < n))"
  by (intro conjI impI; (rule play_next_sequential play_next0_sequential);
      (assumption | rule assms))

theorem sequential_next_prev_witness:
  "\<not> shuffle demo_playing \<and> filtered_files demo_playing \<noteq> [] \<and> settled demo_playing
   \<and> current_index demo_playing = Some 0 \<and> length (filtered_files demo_playing) = 3
   \<and> map_option current_index (play_next (Suc 0) demo_env demo_playing) = Some (Some 1)
   \<and> map_option current_index (play_prev 0 demo_env demo_playing) = Some (Some 2)
   \<and> \<not> shuffle demo_playing0 \<and> files demo_playing0 \<noteq> []
   \<and> current_index demo_playing0 = Some 0 \<and> length (files demo_playing0) = 3
   \<and> current_index (play_next0 demo_env demo_playing0) = Some 1
   \<and> current_index (play_prev0 demo_env demo_playing0) = Some 2"
proof -
  have h: "filtered_files demo_playing \<noteq> []" "\<not> shuffle demo_playing"
    "current_index demo_playing = Some 0" "length (filtered_files demo_playing) = 3"
    by code_simp+
  have st: "settled demo_playing" by code_simp
  have h0: "files demo_playing0 \<noteq> []" "\<not> shuffle demo_playing0"
    "current_index demo_playing0 = Some 0" "length (files demo_playing0) = 3"
    by code_simp+
  let ?n = "int (length (filtered_files demo_playing))"
  note T = sequential_next_prev[OF h(2), where k=0 and e=demo_env, unfolded Let_def]
  from T h(1) st obtain s1 where s1: "play_next (Suc 0) demo_env demo_playing = Some s1"
    "current_index s1
       = Some (case current_index demo_playing of None \<Rightarrow> 0 | Some i \<Rightarrow> (i + 1) mod ?n)"
    by blast
  from T h(1) st obtain s2 where s2: "play_prev 0 demo_env demo_playing = Some s2"
    "current_index s2
       = Some (case current_index demo_playing of None \<Rightarrow> 0 | Some i \<Rightarrow> (i - 1 + ?n) mod ?n)"
    by blast
  have a: "current_index s1 = Some 1" "current_index s2 = Some 2"
    using s1(2) s2(2) h(3,4) by simp_all
  let ?m = "int (length (files demo_playing0))"
  note T0 = sequential_next_prev[OF h0(2), where k=0 and e=demo_env, unfolded Let_def]
  from T0 h0(1) have "current_index (play_next0 demo_env demo_playing0)
       = Some (case current_index demo_playing0 of None \<Rightarrow> 0 | Some i \<Rightarrow> (i + 1) mod ?m)"
    "current_index (play_prev0 demo_env demo_playing0)
       = Some (case current_index demo_playing0 of None \<Rightarrow> 0 | Some i \<Rightarrow> (i - 1 + ?m) mod ?m)"
    by blast+
  then have b: "current_index (play_next0 demo_env demo_playing0) = Some 1"
    "current_index (play_prev0 demo_env demo_playing0) = Some 2"
    using h0(3,4) by simp_all
  show ?thesis using h st s1(1) s2(1) a h0 b by (simp del: play_next.simps)
qed

lemma randrange_less: "0 < n \<Longrightarrow> randrange e j n < n"
  by (simp add: randrange_def)

lemma play_next_shuffle:
  assumes "filtered_files s \<noteq> []" and "shuffle s"
  shows "(let n = length (filtered_files s); r = randrange e (draws s) n
          in play_prev k e s = play_next (Suc k) e s
           \<and> play_next (Suc k) e s
               = play_current (play_next k e) e
                   (s\<lparr>current_index := Some (int r), draws := Suc (draws s)\<rparr>)
           \<and> r < n
           \<and> (\<forall>v<n. rng e (draws s) n = v \<longrightarrow> r = v)
           \<and> (settled s \<longrightarrow>
                (\<exists>s'. play_next (Suc k) e s = Some s' \<and> play_prev k e s = Some s'
                      \<and> current_index s' = Some (int r) \<and> 0 \<le> int r \<and> int r < int n
                      \<and> filtered_files s' = filtered_files s)))"
proof -
  define n where "n = length (filtered_files s)"
  define r where "r = randrange e (draws s) n"
  have n: "0 < n" using assms(1) by (simp add: n_def)
  have a: "play_next (Suc k) e s
               = play_current (play_next k e) e
                   (s\<lparr>current_index := Some (int r), draws := Suc (draws s)\<rparr>)"
    using assms by (simp add: play_next_body_def r_def n_def)
  have b: "play_prev k e s = play_next (Suc k) e s"
    unfolding a using assms by (simp add: play_prev_def r_def n_def)
  have c: "r < n" using n by (simp add: r_def randrange_less)
  have d: "\<forall>v<n. rng e (draws s) n = v \<longrightarrow> r = v"
    by (simp add: r_def randrange_def)
  have f: "\<exists>s'. play_next (Suc k) e s = Some s' \<and> play_prev k e s = Some s'
                      \<and> current_index s' = Some (int r) \<and> 0 \<le> int r \<and> int r < int n
                      \<and> filtered_files s' = filtered_files s" if st: "settled s"
  proof -
    obtain s1 where "play_current (play_next k e) e
        (s\<lparr>current_index := Some (int r), draws := Suc (draws s)\<rparr>) = Some s1"
      "current_index s1 = Some (int r)" "same_settings s s1"
      using play_next_shuffle_settles[OF st, where k=k and e=e and x="Some (int r)"
          and d="Suc (draws s)"] by blast
    then show ?thesis unfolding b a using c by (simp add: same_settings_def)
  qed
  show ?thesis
    unfolding Let_def n_def[symmetric] r_def[symmetric]
    using a b c d f by blast
qed

text \<open>
  Claim C5. In shuffle mode on a catalog that is not empty, \<open>play_prev\<close> is \<open>play_next\<close>:
  both set the index to one draw of \<open>random.randrange(length)\<close> and play the item there.
  The draw is an index into the catalog, and the index is the draw itself, nothing is
  done to it: a value \<open>r\<close> of the generator below the length gives the index \<open>r\<close>, so the
  indices are distributed as the library distributes its draws. In MemePlayer_full.py
  the catalog is \<open>filtered_files\<close>; when no call of \<open>play_next\<close> is nested in the playing,
  both calls return and leave that index. In MemePlayer.py the catalog is \<open>files\<close>, and
  both calls return and leave that index.
\<close>

theorem shuffle_next_prev:
  assumes "shuffle s"
  shows "(filtered_files s \<noteq> [] \<longrightarrow>
           (let n = length (filtered_files s); r = randrange e (draws s) n
            in play_prev k e s = play_next (Suc k) e s
             \<and> play_next (Suc k) e s
                 = play_current (play_next k e) e
                     (s\<lparr>current_index := Some (int r), draws := Suc (draws s)\<rparr>)
             \<and> r < n
             \<and> (\<forall>v<n. rng e (draws s) n = v \<longrightarrow> r = v)
             \<and> (settled s \<longrightarrow>
                  (\<exists>s'. play_next (Suc k) e s = Some s' \<and> play_prev k e s = Some s'
                        \<and> current_index s' = Some (int r) \<and> 0 \<le> int r \<and> int r < int n
                        \<and> filtered_files s' = filtered_files s))))
       \<and> (files s \<noteq> [] \<longrightarrow>
           (let n = length (files s); r = randrange e (draws s) n
            in play_prev0 e s = play_next0 e s
             \<and> play_next0 e s
                 = play_current0 e (s\<lparr>current_index := Some (int r), draws := Suc (draws s)\<rparr>)
             \<and> current_index (play_next0 e s) = Some (int r)
             \<and> current_index (play_prev0 e s) = Some (int r)
             \<and> files (play_next0 e s) = files s
             \<and> r < n
             \<and> (\<forall>v<n. rng e (draws s) n = v \<longrightarrow> r = v)))"
  by (intro conjI impI; (rule play_next_shuffle play_next0_shuffle);
      (assumption | rule assms))

theorem shuffle_next_prev_witness:
  "shuffle demo_loaded \<and> filtered_files demo_loaded \<noteq> [] \<and> settled demo_loaded
   \<and> draws demo_loaded = 0 \<and> length (filtered_files demo_loaded) = 3
   \<and> map_option current_index (play_next (Suc 0) demo_env demo_loaded) = Some (Some 1)
   \<and> play_prev 0 demo_env demo_loaded = play_next (Suc 0) demo_env demo_loaded
   \<and> files demo_loaded \<noteq> [] \<and> length (files demo_loaded) = 3
   \<and> current_index (play_next0 demo_env demo_loaded) = Some 1
   \<and> play_prev0 demo_env demo_loaded = play_next0 demo_env demo_loaded"
proof -
  have h: "filtered_files demo_loaded \<noteq> []" "shuffle demo_loaded"
    "draws demo_loaded = 0" "length (filtered_files demo_loaded) = 3"
    "files demo_loaded \<noteq> []" "length (files demo_loaded) = 3"
    by code_simp+
  have st: "settled demo_loaded" by code_simp
  have r: "randrange demo_env 0 3 = 1" by code_simp
  note T = shuffle_next_prev[OF h(2), where k=0 and e=demo_env, unfolded Let_def]
  from T h(1) st obtain s1 where s1: "play_next (Suc 0) demo_env demo_loaded = Some s1"
    "current_index s1
       = Some (int (randrange demo_env (draws demo_loaded) (length (filtered_files demo_loaded))))"
    by blast
  from T h(1) have p: "play_prev 0 demo_env demo_loaded = play_next (Suc 0) demo_env demo_loaded"
    by blast
  from T h(5) have q: "play_prev0 demo_env demo_loaded = play_next0 demo_env demo_loaded"
    "current_index (play_next0 demo_env demo_loaded)
       = Some (int (randrange demo_env (draws demo_loaded) (length (files demo_loaded))))"
    by blast+
  have "current_index s1 = Some 1" using s1(2) h(3,4) r by simp
  moreover have "current_index (play_next0 demo_env demo_loaded) = Some 1"
    using q(2) h(3,6) r by simp
  ultimately show ?thesis using h st s1(1) p q(1) by (simp del: play_next.simps)
qed

text \<open>
  Claim C6. On an empty catalog \<open>play_next\<close> and \<open>play_prev\<close> return the state they were
  given: the index stays as it was, absent when it was absent, and nothing is shown.
  \<open>start\<close> shows the warning and changes nothing else: the player stays stopped when it
  was stopped.
\<close>

theorem empty_catalog_noop:
  assumes "filtered_files s = []"
  shows "play_next (Suc k) e s = Some s \<and> play_prev k e s = Some s
         \<and> start k e s = Some (s\<lparr>trace := trace s @ [Warn_no_files]\<rparr>)
         \<and> step k e Next s = Some s \<and> step k e Prev s = Some s
         \<and> step k e Start s = Some (s\<lparr>trace := trace s @ [Warn_no_files]\<rparr>)"
  using assms
  by (simp add: play_next_body_def play_prev_def start_def emit_def step_def)

theorem empty_catalog_noop_witness:
  "filtered_files (init [] None) = []
   \<and> play_next (Suc 0) demo_env (init [] None) = Some (init [] None)
   \<and> play_prev 0 demo_env (init [] None) = Some (init [] None)
   \<and> map_option is_running (start 0 demo_env (init [] None)) = Some False
   \<and> map_option current_index (start 0 demo_env (init [] None)) = Some None
   \<and> map_option trace (start 0 demo_env (init [] None)) = Some [Warn_no_files]"
proof -
  have h: "filtered_files (init [] None) = []" by (simp add: init_def refresh_playlist_combo_def)
  have t: "trace (init [] None) = []" "is_running (init [] None) = False"
    "current_index (init [] None) = None"
    by (simp_all add: init_def refresh_playlist_combo_def Let_def)
  from empty_catalog_noop[OF h, of 0 demo_env] t h show ?thesis
    by (simp del: play_next.simps)
qed

section \<open>The flags\<close>

lemma init_flags [simp]: "is_running (init sfx doc) = False" "is_paused (init sfx doc) = False"
  by (simp_all add: init_def refresh_playlist_combo_def Let_def)

text \<open>
  Claim C10. After every sequence of actions that returns, from the initial state or from
  any state in which the paused flag implies the running flag, the paused flag implies
  the running flag. \<open>toggle_pause\<close> does nothing when the player is not running, \<open>stop\<close>
  clears both flags, and \<open>start\<close> on a catalog that is not empty sets the running flag
  and clears the paused flag. The same holds of MemePlayer.py, where every sequence of
  actions returns; its \<open>start\<close> sets the flags when a folder was chosen, the catalog is
  not empty and the creation of the VLC objects does not raise.
\<close>

theorem paused_implies_running:
  "(run k e as (init sfx doc) = Some s' \<longrightarrow> (is_paused s' \<longrightarrow> is_running s'))
   \<and> ((is_paused s \<longrightarrow> is_running s) \<and> run k e as s = Some s'
        \<longrightarrow> (is_paused s' \<longrightarrow> is_running s'))
   \<and> (\<not> is_running s \<longrightarrow> toggle_pause e s = s)
   \<and> \<not> is_paused (stop s) \<and> \<not> is_running (stop s)
   \<and> (filtered_files s \<noteq> [] \<and> start k e s = Some s' \<longrightarrow> is_running s' \<and> \<not> is_paused s')
   \<and> (is_paused (run0 e as (init sfx doc)) \<longrightarrow> is_running (run0 e as (init sfx doc)))
   \<and> ((is_paused s \<longrightarrow> is_running s)
        \<longrightarrow> (is_paused (run0 e as s) \<longrightarrow> is_running (run0 e as s)))
   \<and> (\<not> is_running s \<longrightarrow> toggle_pause0 e s = s)
   \<and> \<not> is_paused (stop0 s) \<and> \<not> is_running (stop0 s)
   \<and> (folder s \<noteq> None \<and> folder s \<noteq> Some [] \<and> files s \<noteq> []
          \<and> (vlc_instance s \<or> \<not> VLC_AVAILABLE e \<or> vlc_starts e)
        \<longrightarrow> is_running (start0 e s) \<and> \<not> is_paused (start0 e s))"
proof -
  have a: "run k e as t = Some s' \<Longrightarrow> (is_paused t \<longrightarrow> is_running t)
           \<Longrightarrow> (is_paused s' \<longrightarrow> is_running s')" for t
    by (rule run_paused_running)
  have b: "\<not> is_running s \<longrightarrow> toggle_pause e s = s"
    by (simp add: toggle_pause_not_running)
  have c: "filtered_files s \<noteq> [] \<and> start k e s = Some s' \<longrightarrow> is_running s' \<and> \<not> is_paused s'"
    using start_flags[of k e s s'] by blast
  have a0: "(is_paused t \<longrightarrow> is_running t)
            \<Longrightarrow> (is_paused (run0 e as t) \<longrightarrow> is_running (run0 e as t))" for t
    by (rule run0_paused_running)
  have b0: "\<not> is_running s \<longrightarrow> toggle_pause0 e s = s"
    by (simp add: toggle_pause0_not_running)
  have c0: "folder s \<noteq> None \<and> folder s \<noteq> Some [] \<and> files s \<noteq> []
          \<and> (vlc_instance s \<or> \<not> VLC_AVAILABLE e \<or> vlc_starts e)
        \<longrightarrow> is_running (start0 e s) \<and> \<not> is_paused (start0 e s)"
    using start0_running[of s e] by blast
  show ?thesis using a[of "init sfx doc"] a[of s] b c a0[of "init sfx doc"] a0[of s] b0 c0
    by simp
qed

theorem paused_implies_running_witness:
  "run 0 demo_env [Toggle_pause] demo_playing = Some demo_paused
   \<and> is_running demo_playing \<and> is_paused demo_paused \<and> is_running demo_paused
   \<and> is_running demo_playing0 \<and> is_paused (run0 demo_env [Toggle_pause] demo_playing0)
   \<and> is_running (run0 demo_env [Toggle_pause] demo_playing0)"
proof -
  have r: "run 0 demo_env [Toggle_pause] demo_playing = Some demo_paused" by code_simp
  have h: "is_running demo_playing" "is_paused demo_paused" by code_simp+
  have h0: "is_running demo_playing0" "is_paused (run0 demo_env [Toggle_pause] demo_playing0)"
    by code_simp+
  from paused_implies_running[of 0 demo_env "[Toggle_pause]" "[]" None demo_paused demo_playing]
  have "is_paused demo_paused \<longrightarrow> is_running demo_paused" using r h(1) by blast
  moreover
  from paused_implies_running[of 0 demo_env "[Toggle_pause]" "[]" None demo_paused demo_playing0]
  have "is_paused (run0 demo_env [Toggle_pause] demo_playing0)
        \<longrightarrow> is_running (run0 demo_env [Toggle_pause] demo_playing0)" using h0(1) by blast
  ultimately show ?thesis using r h h0 by simp
qed

section \<open>Pause and resume\<close>

lemma toggle_pause_rearms:
  assumes "is_running s" and "\<not> is_paused s"
  shows "(let p = toggle_pause e s; r = toggle_pause e (p\<lparr>interval_seconds := v\<rparr>)
          in step k e Toggle_pause s = Some p
           \<and> is_running p \<and> is_paused p \<and> after_id p = None
           \<and> pending p = (case after_id s of None \<Rightarrow> pending s
                           | Some i \<Rightarrow> filter (\<lambda>t. fst t \<noteq> i) (pending s))
           \<and> (timers_ok s \<longrightarrow> pending p = [])
           \<and> (after_id s \<noteq> None \<longrightarrow> countdown_seconds_left p = 0 \<and> timer_label p = None)
           \<and> is_running r \<and> \<not> is_paused r
           \<and> pending r = pending p @ [(next_id p, v * 1000, Play_next)]
           \<and> after_id r = Some (next_id p)
           \<and> countdown_seconds_left r = countdown_seconds_left p
           \<and> timer_label r = timer_label p
           \<and> (timers_ok s \<longrightarrow>
                fire k e (next_id p) r = play_next (Suc k) e (r\<lparr>pending := []\<rparr>)))"
proof -
  define c where "c = cancel_timers (s\<lparr>is_paused := True\<rparr>)"
  define p where "p = toggle_pause e s"
  define r where "r = toggle_pause e (p\<lparr>interval_seconds := v\<rparr>)"
  have p: "p = (if vlc_player c \<and> VLC_AVAILABLE e then emit Pause_video c else c)"
    using assms by (simp add: p_def toggle_pause_def c_def Let_def)
  have pf: "is_running p" "is_paused p" "after_id p = None" "pending p = pending c"
    "countdown_seconds_left p = countdown_seconds_left c" "timer_label p = timer_label c"
    "next_id p = next_id c"
    using assms by (simp_all add: p c_def)
  have pc: "pending c = (case after_id s of None \<Rightarrow> pending s
                           | Some i \<Rightarrow> filter (\<lambda>t. fst t \<noteq> i) (pending s))"
    by (simp add: c_def cancel_timers_pending split: option.splits)
  have tk: "timers_ok s \<Longrightarrow> pending c = []"
    unfolding pc by (auto simp: timers_ok_def split: option.splits list.splits)
  have cd: "after_id s \<noteq> None \<Longrightarrow> countdown_seconds_left c = 0 \<and> timer_label c = None"
    by (auto simp: c_def cancel_timers_def)
  define m where "m = p\<lparr>interval_seconds := v, is_paused := False,
                         pending := pending p @ [(next_id p, v * 1000, Play_next)],
                         next_id := Suc (next_id p), after_id := Some (next_id p)\<rparr>"
  have r: "r = (if vlc_player m \<and> VLC_AVAILABLE e then emit Resume_video m else m)"
    using pf(1,2,3) by (simp add: r_def m_def toggle_pause_def after_def Let_def)
  have rf: "is_running r" "\<not> is_paused r"
    "pending r = pending p @ [(next_id p, v * 1000, Play_next)]" "after_id r = Some (next_id p)"
    "countdown_seconds_left r = countdown_seconds_left p" "timer_label r = timer_label p"
    using pf(1) by (simp_all add: r m_def)
  have fr: "fire k e (next_id p) r = play_next (Suc k) e (r\<lparr>pending := []\<rparr>)"
    if "timers_ok s"
  proof -
    have "pending r = [(next_id p, v * 1000, Play_next)]"
      using rf(3) pf(4) tk[OF that] by simp
    then show ?thesis by (simp add: fire_def del: play_next.simps)
  qed
  have st: "step k e Toggle_pause s = Some p" by (simp add: step_def p_def)
  show ?thesis
    unfolding Let_def p_def[symmetric] r_def[symmetric]
    using st pf pc tk cd rf fr by simp
qed

text \<open>
  Claim C3. Pausing a running player cancels the timer that \<open>_after_id\<close> names: no
  callback is left pending (in a state where at most one was), and the seconds left of
  a countdown are set to 0. Resuming, with the interval at any value \<open>v\<close> it has by then,
  schedules one call of \<open>play_next\<close> after \<open>v\<close> seconds, whatever was left of the
  countdown when the player was paused; when that callback runs, \<open>play_next\<close> runs. The
  timer is a single call of \<open>after\<close>: the seconds shown by the countdown label are not
  started again. The second conjunct says the same of MemePlayer.py, which has no
  countdown display.
\<close>

theorem pause_resume_rearms:
  assumes "is_running s" and "\<not> is_paused s"
  shows "(let p = toggle_pause e s; r = toggle_pause e (p\<lparr>interval_seconds := v\<rparr>)
          in step k e Toggle_pause s = Some p
           \<and> is_running p \<and> is_paused p \<and> after_id p = None
           \<and> pending p = (case after_id s of None \<Rightarrow> pending s
                           | Some i \<Rightarrow> filter (\<lambda>t. fst t \<noteq> i) (pending s))
           \<and> (timers_ok s \<longrightarrow> pending p = [])
           \<and> (after_id s \<noteq> None \<longrightarrow> countdown_seconds_left p = 0 \<and> timer_label p = None)
           \<and> is_running r \<and> \<not> is_paused r
           \<and> pending r = pending p @ [(next_id p, v * 1000, Play_next)]
           \<and> after_id r = Some (next_id p)
           \<and> countdown_seconds_left r = countdown_seconds_left p
           \<and> timer_label r = timer_label p
           \<and> (timers_ok s \<longrightarrow>
                fire k e (next_id p) r = play_next (Suc k) e (r\<lparr>pending := []\<rparr>)))
       \<and> (let p = toggle_pause0 e s; r = toggle_pause0 e (p\<lparr>interval_seconds := v\<rparr>)
          in is_running p \<and> is_paused p \<and> after_id p = None
           \<and> pending p = (case after_id s of None \<Rightarrow> pending s
                           | Some i \<Rightarrow> filter (\<lambda>t. fst t \<noteq> i) (pending s))
           \<and> is_running r \<and> \<not> is_paused r
           \<and> pending r = pending p @ [(next_id p, v * 1000, Play_next)]
           \<and> after_id r = Some (next_id p)
           \<and> fire0 e (next_id p) (r\<lparr>pending := [(next_id p, v * 1000, Play_next)]\<rparr>)
               = play_next0 e (r\<lparr>pending := []\<rparr>))"
  by (intro conjI; (rule toggle_pause_rearms toggle_pause0_rearms); rule assms)

theorem pause_resume_rearms_witness:
  "is_running demo_playing \<and> \<not> is_paused demo_playing
   \<and> countdown_seconds_left demo_playing = 4
   \<and> pending demo_playing = [(0, 1000, Tick_countdown)]
   \<and> pending (toggle_pause demo_env demo_playing) = []
   \<and> pending (toggle_pause demo_env ((toggle_pause demo_env demo_playing)\<lparr>interval_seconds := 5\<rparr>))
       = [(1, 5000, Play_next)]
   \<and> is_running demo_playing0 \<and> \<not> is_paused demo_playing0
   \<and> pending demo_playing0 = [(0, 5000, Play_next)]
   \<and> pending (toggle_pause0 demo_env demo_playing0) = []
   \<and> pending (toggle_pause0 demo_env
                 ((toggle_pause0 demo_env demo_playing0)\<lparr>interval_seconds := 5\<rparr>))
       = [(1, 5000, Play_next)]"
proof -
  have h: "is_running demo_playing" "\<not> is_paused demo_playing"
    "countdown_seconds_left demo_playing = 4"
    "pending demo_playing = [(0, 1000, Tick_countdown)]"
    "after_id demo_playing = Some 0" "next_id demo_playing = 1"
    by code_simp+
  have t: "timers_ok demo_playing" using h by (simp add: timers_ok_def)
  have n: "next_id (toggle_pause demo_env demo_playing) = 1" by code_simp
  note T = pause_resume_rearms[OF h(1,2), of demo_env 5 0, unfolded Let_def]
  from T t have a: "pending (toggle_pause demo_env demo_playing) = []" by blast
  from T have "pending (toggle_pause demo_env ((toggle_pause demo_env demo_playing)\<lparr>interval_seconds := 5\<rparr>))
     = pending (toggle_pause demo_env demo_playing)
       @ [(next_id (toggle_pause demo_env demo_playing), 5 * 1000, Play_next)]" by blast
  then have b: "pending (toggle_pause demo_env
                   ((toggle_pause demo_env demo_playing)\<lparr>interval_seconds := 5\<rparr>))
     = [(1, 5000, Play_next)]" using a n by simp
  have h0: "is_running demo_playing0" "\<not> is_paused demo_playing0"
    "pending demo_playing0 = [(0, 5000, Play_next)]" "after_id demo_playing0 = Some 0"
    by code_simp+
  have n0: "next_id (toggle_pause0 demo_env demo_playing0) = 1" by code_simp
  note T0 = pause_resume_rearms[OF h0(1,2), of demo_env 5 0, unfolded Let_def]
  from T0 have "pending (toggle_pause0 demo_env demo_playing0)
     = (case after_id demo_playing0 of None \<Rightarrow> pending demo_playing0
        | Some i \<Rightarrow> filter (\<lambda>t. fst t \<noteq> i) (pending demo_playing0))" by blast
  then have a0: "pending (toggle_pause0 demo_env demo_playing0) = []" using h0(3,4) by simp
  from T0 have "pending (toggle_pause0 demo_env
                   ((toggle_pause0 demo_env demo_playing0)\<lparr>interval_seconds := 5\<rparr>))
     = pending (toggle_pause0 demo_env demo_playing0)
       @ [(next_id (toggle_pause0 demo_env demo_playing0), 5 * 1000, Play_next)]" by blast
  then have b0: "pending (toggle_pause0 demo_env
                   ((toggle_pause0 demo_env demo_playing0)\<lparr>interval_seconds := 5\<rparr>))
     = [(1, 5000, Play_next)]" using a0 n0 by simp
  show ?thesis using h a b h0 a0 b0 by simp
qed

section \<open>Playlists\<close>





section \<open>The index and the filtered view\<close>

text \<open>
  Claim C4 at a failing input: three files are loaded, the third is playing, and \<open>a\<close> is
  typed into the search box. The filtered view has one file and the index is still 2.
  Stop and Start then leave the player running with nothing pending and nothing shown
  after the panel was cleared. A folder load, in contrast, clears the index.
\<close>

theorem search_leaves_index_stale:
  "map_option filtered_files demo_searched = Some [str ''/m/a.png'']
   \<and> map_option current_index demo_searched = Some (Some 2)
   \<and> map_option index_ok demo_searched = Some False
   \<and> map_option is_running (run 0 demo_env [Stop, Start] (the demo_searched)) = Some True
   \<and> map_option pending (run 0 demo_env [Stop, Start] (the demo_searched)) = Some []
   \<and> map_option (last \<circ> trace) (run 0 demo_env [Stop, Start] (the demo_searched))
       = Some Clear_panel
   \<and> current_index (select_folder demo_env (str ''/m'') (the demo_searched)) = None"
  by code_simp


section \<open>Looped videos\<close>

text \<open>
  Claim C9 at a failing input: the loop box is ticked and the video \<open>b.mp4\<close>, 3 seconds
  long, is playing in sequential mode. The countdown is started for 3 seconds, the length
  of the clip; after three ticks the player shows \<open>c.jpg\<close>, the next item.
\<close>

theorem looped_video_advances:
  "loop_videos loop_playing \<and> is_running loop_playing
   \<and> current_index loop_playing = Some 1
   \<and> last (trace loop_playing) = Play_video (str ''/m/b.mp4'')
   \<and> progress_maximum loop_playing = 3
   \<and> pending loop_playing = [(1, 1000, Tick_countdown)]
   \<and> map_option current_index (fire_times 3 1 loop_env loop_playing) = Some (Some 2)
   \<and> map_option (last \<circ> trace) (fire_times 3 1 loop_env loop_playing)
       = Some (Show_image (str ''/m/c.jpg''))"
  by code_simp

section \<open>The countdown\<close>

subsection \<open>One countdown, tick by tick\<close>








subsection \<open>The timers through every action\<close>

lemma timer_inv_upd [simp]:
  "timer_inv (s\<lparr>current_index := ci\<rparr>) = timer_inv s"
  "timer_inv (s\<lparr>draws := d\<rparr>) = timer_inv s"
  "timer_inv (s\<lparr>is_running := b\<rparr>) = timer_inv s"
  "timer_inv (s\<lparr>is_paused := b\<rparr>) = timer_inv s"
  "timer_inv (s\<lparr>vlc_instance := b\<rparr>) = timer_inv s"
  "timer_inv (s\<lparr>vlc_player := b\<rparr>) = timer_inv s"
  "timer_inv (s\<lparr>shuffle := b\<rparr>) = timer_inv s"
  "timer_inv (s\<lparr>loop_videos := b\<rparr>) = timer_inv s"
  "timer_inv (s\<lparr>search_var := q\<rparr>) = timer_inv s"
  "timer_inv (s\<lparr>current_playlist := q\<rparr>) = timer_inv s"
  "timer_inv (s\<lparr>timer_label := l\<rparr>) = timer_inv s"
  "timer_inv (s\<lparr>progress_value := pv\<rparr>) = timer_inv s"
  "timer_inv (emit ev s) = timer_inv s"
  "timer_inv (stop_video s) = timer_inv s"
  "timer_inv (apply_search_filter e s) = timer_inv s"
  "timer_inv (select_folder e dir s) = timer_inv s"
  "timer_inv (apply_selected_playlist e s) = timer_inv s"
  "timer_inv (playlist_new nm s) = timer_inv s"
  by (simp_all add: timer_inv_def timers_ok_def countdown_ok_def
      cong: option.case_cong list.case_cong)





















end
